theory Spec2Isabelle
  imports Complex_Main "HOL-Library.Word"
begin

unbundle bit_operations_syntax

section \<open>Data model\<close>

text \<open>
  The driver class \<open>DS18B20_7semi\<close> (files \<open>7semi_DS18B20.h\<close> and \<open>7semi_DS18B20.cpp\<close>)
  talks to the sensor through an \<open>OneWire\<close> object and the Arduino core
  (\<open>pinMode\<close>, \<open>digitalWrite\<close>, \<open>delay\<close>).  Neither belongs to the repository, so
  both are modelled as an environment: a record \<open>hw\<close> that holds what the line will
  deliver and what the driver has done so far.

  \<^item> \<open>uint8_t\<close> is \<open>8 word\<close>, \<open>uint16_t\<close> and the bits of \<open>int16_t\<close> are \<open>16 word\<close>;
  \<^item> \<open>int8_t\<close> values (the alarm thresholds, the pull-up pin) are \<open>int\<close>s, with the
    casts of the source written out: \<open>(uint8_t)x\<close> is \<open>word_of_int x\<close> and
    \<open>(int8_t)b\<close> is \<open>sint b\<close>;
  \<^item> an address \<open>uint8_t addr[8]\<close> and a scratchpad buffer \<open>uint8_t buffer[9]\<close> are
    byte lists;
  \<^item> the parameter \<open>tl\<close> of the source is written \<open>tl'\<close> (\<open>tl\<close> is the tail of a list
    in HOL), and the private members (\<open>_devices\<close>, \<open>_addresses\<close>, \<open>_strongPullupPin\<close>,
    \<open>_dataPin\<close>, \<open>_strongPullup\<close>, \<open>_conversionDelayMs\<close>) lose their leading
    underscore.
\<close>

type_synonym u8 = "8 word"
type_synonym u16 = "16 word"
type_synonym i8 = int
type_synonym rom = "u8 list"

datatype level = LOW | HIGH

text \<open>Everything the driver does to the outside world, in the order it does it.\<close>

datatype event =
    Reset
  | Select rom
  | Write u8
  | Read u8
  | ResetSearch
  | Search bool
  | PinModeOutput u8
  | DigitalWrite u8 level
  | Delay nat

text \<open>
  The environment.  \<open>rx\<close> is the sequence of bytes that successive \<open>oneWire.read()\<close>
  calls return and \<open>pos\<close> counts the reads made so far: every sequence is allowed, so
  every behaviour of the line (a healthy device, noise, no device at all) is covered.
  \<open>roms\<close> are the candidate addresses that successive \<open>oneWire.search\<close> calls deliver
  after a \<open>reset_search\<close>, \<open>cursor\<close> is the position of the enumeration, and \<open>log\<close> is
  the trace of events.
\<close>

record hw =
  rx :: "nat \<Rightarrow> u8"
  pos :: nat
  roms :: "rom list"
  cursor :: nat
  log :: "event list"

text \<open>The fields of the class (the \<open>OneWire\<close> member is the \<open>hw\<close> threaded through).\<close>

record DS18B20_7semi =
  devices :: u8
  addresses :: "rom list"
  strongPullupPin :: i8
  dataPin :: u8

definition DS18B20_MAX_DEVICES :: u8 where
  "DS18B20_MAX_DEVICES = 16"

section \<open>The bus transport and the Arduino core\<close>

definition emit :: "event \<Rightarrow> hw \<Rightarrow> hw" where
  "emit e h = h\<lparr>log := log h @ [e]\<rparr>"

text \<open>\<open>OneWire::reset\<close>; the driver never looks at the presence bit it returns.\<close>

definition ow_reset :: "hw \<Rightarrow> hw" where
  "ow_reset h = emit Reset h"

definition ow_select :: "rom \<Rightarrow> hw \<Rightarrow> hw" where
  "ow_select addr h = emit (Select addr) h"

text \<open>\<open>OneWire::write(v, power)\<close>; every call of the driver passes \<open>power = 0\<close>.\<close>

definition ow_write :: "u8 \<Rightarrow> hw \<Rightarrow> hw" where
  "ow_write v h = emit (Write v) h"

definition ow_read :: "hw \<Rightarrow> u8 \<times> hw" where
  "ow_read h = (rx h (pos h), emit (Read (rx h (pos h))) (h\<lparr>pos := Suc (pos h)\<rparr>))"

definition ow_reset_search :: "hw \<Rightarrow> hw" where
  "ow_reset_search h = emit ResetSearch (h\<lparr>cursor := 0\<rparr>)"

text \<open>
  \<open>OneWire::search(addr)\<close>: the next candidate, or \<open>None\<close> (the call returns false and
  the enumeration starts over) when there is none left.
\<close>

definition ow_search :: "hw \<Rightarrow> rom option \<times> hw" where
  "ow_search h =
     (if cursor h < length (roms h)
      then (Some (roms h ! cursor h), emit (Search True) (h\<lparr>cursor := Suc (cursor h)\<rparr>))
      else (None, emit (Search False) (h\<lparr>cursor := 0\<rparr>)))"

definition delay :: "nat \<Rightarrow> hw \<Rightarrow> hw" where
  "delay ms h = emit (Delay ms) h"

subsection \<open>The checksum\<close>

text \<open>
  Modelled from the spec: \<open>OneWire::crc8\<close>, the "CRC-8 checksum function" of the bus
  transport, is not part of the repository.  It is the Dallas/Maxim 1-Wire CRC
  (polynomial \<open>x^8 + x^5 + x^4 + 1\<close>, reflected constant \<open>0x8C\<close>, initial value 0), here
  in the transport's bit-by-bit form: for each byte, eight rounds of
  \<open>mix = (crc ^ inbyte) & 1; crc >>= 1; if (mix) crc ^= 0x8C; inbyte >>= 1\<close>.
\<close>

fun crc8_bits :: "nat \<Rightarrow> u8 \<Rightarrow> u8 \<Rightarrow> u8" where
  "crc8_bits 0 crc inbyte = crc"
| "crc8_bits (Suc i) crc inbyte =
     (let mix = (crc XOR inbyte) AND 1;
          crc1 = drop_bit 1 crc;
          crc2 = (if mix \<noteq> 0 then crc1 XOR 0x8C else crc1)
      in crc8_bits i crc2 (drop_bit 1 inbyte))"

fun crc8_bytes :: "u8 \<Rightarrow> u8 list \<Rightarrow> u8" where
  "crc8_bytes crc [] = crc"
| "crc8_bytes crc (inbyte # data) = crc8_bytes (crc8_bits 8 crc inbyte) data"

definition crc8 :: "u8 list \<Rightarrow> nat \<Rightarrow> u8" where
  "crc8 data len = crc8_bytes 0 (take len data)"

section \<open>The driver\<close>

subsection \<open>Scratchpad access\<close>

text \<open>The loop \<open>for (i = 0; i < 9; i++) buffer[i] = oneWire.read()\<close>.\<close>

fun read_bytes :: "nat \<Rightarrow> hw \<Rightarrow> u8 list \<times> hw" where
  "read_bytes 0 h = ([], h)"
| "read_bytes (Suc n) h =
     (let (v, h1) = ow_read h; (vs, h2) = read_bytes n h1 in (v # vs, h2))"

text \<open>
  \<open>readScratchpad\<close>: the flag, the buffer (filled whether or not the checksum
  matches) and the environment afterwards.
\<close>

definition readScratchpad :: "rom \<Rightarrow> hw \<Rightarrow> bool \<times> u8 list \<times> hw" where
  "readScratchpad addr h =
     (let h1 = ow_reset h;
          h2 = ow_select addr h1;
          h3 = ow_write 0xBE h2;
          (buffer, h4) = read_bytes 9 h3;
          crcCalculated = crc8 buffer 8
      in if crcCalculated \<noteq> buffer ! 8 then (False, buffer, h4) else (True, buffer, h4))"

text \<open>
  \<open>writeScratchpad\<close>: the three bytes go out after command \<open>0x4E\<close>, then the
  scratchpad is read back and bytes 2 to 4 are compared with what was written.
\<close>

definition writeScratchpad :: "rom \<Rightarrow> i8 \<Rightarrow> i8 \<Rightarrow> u8 \<Rightarrow> hw \<Rightarrow> bool \<times> hw" where
  "writeScratchpad addr th tl' config h =
     (let h1 = ow_reset h;
          h2 = ow_select addr h1;
          h3 = ow_write 0x4E h2;
          h4 = ow_write (word_of_int th) h3;
          h5 = ow_write (word_of_int tl') h4;
          h6 = ow_write config h5;
          (ok, sp, h7) = readScratchpad addr h6
      in if \<not> ok then (False, h7)
         else if sp ! 2 \<noteq> word_of_int th \<or> sp ! 3 \<noteq> word_of_int tl' \<or> sp ! 4 \<noteq> config
              then (False, h7)
              else (True, h7))"

subsection \<open>Power supply and strong pull-up\<close>

text \<open>\<open>readPowerSupply\<close> returns its flag and the value left in \<open>externalPowered\<close>.\<close>

definition readPowerSupply :: "rom \<Rightarrow> hw \<Rightarrow> bool \<times> bool \<times> hw" where
  "readPowerSupply addr h =
     (let h1 = ow_reset h;
          h2 = ow_select addr h1;
          h3 = ow_write 0xB4 h2;
          (v, h4) = ow_read h3;
          externalPowered = (v = 1)
      in (True, externalPowered, h4))"

definition isParasitePower :: "rom \<Rightarrow> hw \<Rightarrow> bool \<times> hw" where
  "isParasitePower addr h =
     (let (known, external, h1) = readPowerSupply addr h
      in if \<not> known then (False, h1) else (\<not> external, h1))"

text \<open>\<open>_strongPullup\<close>: nothing without a pin, else \<open>pinMode\<close> and \<open>digitalWrite\<close>.\<close>

definition strongPullup :: "DS18B20_7semi \<Rightarrow> bool \<Rightarrow> hw \<Rightarrow> hw" where
  "strongPullup self on h =
     (if strongPullupPin self < 0 then h
      else let h1 = emit (PinModeOutput (word_of_int (strongPullupPin self))) h
           in emit (DigitalWrite (word_of_int (strongPullupPin self)) (if on then HIGH else LOW)) h1)"

text \<open>\<open>_conversionDelayMs\<close>: the \<open>switch\<close> with its \<open>default\<close>.\<close>

definition conversionDelayMs :: "u8 \<Rightarrow> u16" where
  "conversionDelayMs resolution =
     (if resolution = 9 then 94
      else if resolution = 10 then 188
      else if resolution = 11 then 375
      else 750)"

definition copyScratchpad :: "DS18B20_7semi \<Rightarrow> rom \<Rightarrow> hw \<Rightarrow> bool \<times> hw" where
  "copyScratchpad self addr h =
     (let h1 = ow_reset h;
          h2 = ow_select addr h1;
          h3 = ow_write 0x48 h2;
          (known, external, h4) = readPowerSupply addr h3;
          h5 = (if \<not> external \<and> strongPullupPin self \<ge> 0 then strongPullup self True h4 else h4);
          h6 = delay 11 h5;
          h7 = (if \<not> external \<and> strongPullupPin self \<ge> 0 then strongPullup self False h6 else h6)
      in (True, h7))"

subsection \<open>Configuration\<close>

definition getResolution :: "rom \<Rightarrow> hw \<Rightarrow> u8 \<times> hw" where
  "getResolution addr h =
     (let (ok, sp, h1) = readScratchpad addr h
      in if \<not> ok then (0, h1)
         else let cfg = sp ! 4;
                  r = cfg AND 0x60
              in if r = 0x00 then (9, h1)
                 else if r = 0x20 then (10, h1)
                 else if r = 0x40 then (11, h1)
                 else if r = 0x60 then (12, h1)
                 else (12, h1))"

definition setResolution :: "DS18B20_7semi \<Rightarrow> rom \<Rightarrow> u8 \<Rightarrow> bool \<Rightarrow> hw \<Rightarrow> bool \<times> hw" where
  "setResolution self addr resolution persistToEeprom h =
     (if resolution < 9 \<or> resolution > 12 then (False, h)
      else let (ok, sp, h1) = readScratchpad addr h
           in if \<not> ok then (False, h1)
              else let th = sint (sp ! 2);
                       tl' = sint (sp ! 3);
                       rbits = (if resolution = 9 then 0x00
                                else if resolution = 10 then 0x20
                                else if resolution = 11 then 0x40
                                else if resolution = 12 then 0x60
                                else 0);
                       config = rbits OR 0x1F;
                       (written, h2) = writeScratchpad addr th tl' config h1
                   in if \<not> written then (False, h2)
                      else if persistToEeprom
                           then (let (copied, h3) = copyScratchpad self addr h2
                                 in if \<not> copied then (False, h3) else (True, h3))
                           else (True, h2))"

definition setAlarms :: "DS18B20_7semi \<Rightarrow> rom \<Rightarrow> i8 \<Rightarrow> i8 \<Rightarrow> bool \<Rightarrow> hw \<Rightarrow> bool \<times> hw" where
  "setAlarms self addr th tl' persistToEeprom h =
     (let (ok, sp, h1) = readScratchpad addr h
      in if \<not> ok then (False, h1)
         else let cfg = sp ! 4;
                  (written, h2) = writeScratchpad addr th tl' cfg h1
              in if \<not> written then (False, h2)
                 else if persistToEeprom then copyScratchpad self addr h2
                 else (True, h2))"

text \<open>\<open>getAlarms\<close>: \<open>None\<close> is the return of false, with \<open>th\<close> and \<open>tl\<close> left alone.\<close>

definition getAlarms :: "rom \<Rightarrow> hw \<Rightarrow> (i8 \<times> i8) option \<times> hw" where
  "getAlarms addr h =
     (let (ok, sp, h1) = readScratchpad addr h
      in if \<not> ok then (None, h1)
         else (Some (sint (sp ! 2), sint (sp ! 3)), h1))"

subsection \<open>Temperature\<close>

text \<open>
  \<open>(int16_t)((scratch[1] << 8) | scratch[0])\<close>: the two bytes as one 16-bit word, read
  as two's complement.
\<close>

definition raw_temperature :: "u8 list \<Rightarrow> int" where
  "raw_temperature scratch =
     sint ((push_bit 8 (ucast (scratch ! 1)) OR ucast (scratch ! 0)) :: u16)"

definition readRawTemperature :: "rom \<Rightarrow> hw \<Rightarrow> int option \<times> hw" where
  "readRawTemperature addr h =
     (let (ok, scratch, h1) = readScratchpad addr h
      in if \<not> ok then (None, h1) else (Some (raw_temperature scratch), h1))"

text \<open>
  \<open>readTemperature\<close>: \<open>None\<close> is \<open>NAN\<close>.  The quotient \<open>raw / 16.0f\<close> of a 16-bit
  integer by a power of two is exact in single precision, so the result is the
  real number \<open>raw / 16\<close>.
\<close>

definition readTemperature :: "DS18B20_7semi \<Rightarrow> rom \<Rightarrow> hw \<Rightarrow> real option \<times> hw" where
  "readTemperature self addr h =
     (let h1 = ow_reset h;
          h2 = ow_select addr h1;
          h3 = ow_write 0x44 h2;
          (res0, h4) = getResolution addr h3;
          res = (if res0 < 9 \<or> res0 > 12 then 12 else res0);
          (extKnown, external, h5) = readPowerSupply addr h4;
          h6 = (if extKnown \<and> \<not> external \<and> strongPullupPin self \<ge> 0
                then strongPullup self True h5 else h5);
          h7 = delay (unat (conversionDelayMs res)) h6;
          h8 = (if extKnown \<and> \<not> external \<and> strongPullupPin self \<ge> 0
                then strongPullup self False h7 else h7);
          (ok, scratch, h9) = readScratchpad addr h8
      in if \<not> ok then (None, h9)
         else let raw = raw_temperature scratch;
                  tempC = real_of_int raw / 16
              in (Some tempC, h9))"

subsection \<open>Discovery\<close>

text \<open>
  The \<open>while (oneWire.search(addr))\<close> loop of \<open>searchDevices\<close>.  The candidate is copied
  into the slot \<open>_addresses[_devices]\<close> before its checksum is looked at; only a
  matching checksum moves \<open>_devices\<close> on.
\<close>

function search_loop :: "DS18B20_7semi \<Rightarrow> hw \<Rightarrow> DS18B20_7semi \<times> hw" where
  "search_loop self h =
     (case ow_search h of
        (None, h1) \<Rightarrow> (self, h1)
      | (Some addr, h1) \<Rightarrow>
          if devices self < DS18B20_MAX_DEVICES
          then let self1 = self\<lparr>addresses := (addresses self)[unat (devices self) := addr]\<rparr>
               in if crc8 addr 7 \<noteq> addr ! 7
                  then search_loop self1 h1
                  else search_loop (self1\<lparr>devices := devices self1 + 1\<rparr>) h1
          else (self, h1))"
  by pat_completeness auto
termination
  by (relation "measure (\<lambda>(self, h). length (roms h) - cursor h)")
     (auto simp: ow_search_def emit_def split: if_splits)

definition searchDevices :: "DS18B20_7semi \<Rightarrow> hw \<Rightarrow> u8 \<times> DS18B20_7semi \<times> hw" where
  "searchDevices self h =
     (let h1 = ow_reset_search h;
          self1 = self\<lparr>devices := 0\<rparr>;
          (self2, h2) = search_loop self1 h1;
          h3 = ow_reset_search h2
      in (devices self2, self2, h3))"

definition getAddress :: "DS18B20_7semi \<Rightarrow> u8 \<Rightarrow> rom option" where
  "getAddress self index =
     (if index \<ge> devices self then None else Some (addresses self ! unat index))"

section \<open>Notions used to state the properties\<close>

text \<open>
  \<open>line_bytes h k n\<close>: the \<open>n\<close> bytes that the line delivers in state \<open>h\<close> after \<open>k\<close>
  more reads.  \<open>advance h n es\<close>: the state after \<open>n\<close> reads and the events \<open>es\<close>.
\<close>

definition line_bytes :: "hw \<Rightarrow> nat \<Rightarrow> nat \<Rightarrow> u8 list" where
  "line_bytes h k n = map (rx h) [pos h + k ..< pos h + k + n]"

definition advance :: "hw \<Rightarrow> nat \<Rightarrow> event list \<Rightarrow> hw" where
  "advance h n es = h\<lparr>pos := pos h + n, log := log h @ es\<rparr>"

text \<open>One round of the checksum on \<open>crc ^ inbyte\<close>, used to reason about \<open>crc8_bits\<close>.\<close>

definition crc8_step :: "u8 \<Rightarrow> u8" where
  "crc8_step c = (if c AND 1 \<noteq> 0 then drop_bit 1 c XOR 0x8C else drop_bit 1 c)"

text \<open>
  A test bench: a line that delivers the bytes \<open>bs\<close> and then idles high (\<open>0xFF\<close>),
  with the candidate addresses \<open>cands\<close> on it and nothing done yet.
\<close>

definition bench :: "u8 list \<Rightarrow> rom list \<Rightarrow> hw" where
  "bench bs cands =
     \<lparr>rx = (\<lambda>n. if n < length bs then bs ! n else 0xFF), pos = 0,
      roms = cands, cursor = 0, log = []\<rparr>"

definition sensor :: rom where
  "sensor = [0x28, 0x01, 0x00, 0x00, 0x00, 0x00, 0x00, 0x29]"

text \<open>The power-on scratchpad of the data sheet (85 degrees, 12 bits) and its checksum.\<close>

definition power_on_scratchpad :: "u8 list" where
  "power_on_scratchpad = [0x50, 0x05, 0x4B, 0x46, 0x7F, 0xFF, 0x0C, 0x10, 0x1C]"

text \<open>The events of one scratchpad read, of one power-supply query and of \<open>_strongPullup\<close>.\<close>

definition scratch_events :: "rom \<Rightarrow> u8 list \<Rightarrow> event list" where
  "scratch_events addr sp = [Reset, Select addr, Write 0xBE] @ map Read sp"

definition power_events :: "rom \<Rightarrow> u8 \<Rightarrow> event list" where
  "power_events addr v = [Reset, Select addr, Write 0xB4, Read v]"

definition pullup_events :: "DS18B20_7semi \<Rightarrow> level \<Rightarrow> event list" where
  "pullup_events self l =
     (if strongPullupPin self < 0 then []
      else [PinModeOutput (word_of_int (strongPullupPin self)),
            DigitalWrite (word_of_int (strongPullupPin self)) l])"

text \<open>What a call added to the trace.\<close>

definition new_events :: "hw \<Rightarrow> hw \<Rightarrow> event list" where
  "new_events h h' = drop (length (log h)) (log h')"

text \<open>An event that asserts the strong pull-up (the pin is active high).\<close>

fun is_assert :: "event \<Rightarrow> bool" where
  "is_assert (DigitalWrite p HIGH) = True"
| "is_assert e = False"

text \<open>The waits of a trace, in milliseconds.\<close>

fun delays :: "event list \<Rightarrow> nat list" where
  "delays [] = []"
| "delays (Delay ms # es) = ms # delays es"
| "delays (e # es) = delays es"

text \<open>
  What \<open>getResolution\<close> makes of the nine bytes of a scratchpad read, and the wait that
  \<open>readTemperature\<close> derives from them.
\<close>

definition decode_resolution :: "u8 list \<Rightarrow> u8" where
  "decode_resolution sp =
     (if crc8 sp 8 \<noteq> sp ! 8 then 0
      else if sp ! 4 AND 0x60 = 0x00 then 9
      else if sp ! 4 AND 0x60 = 0x20 then 10
      else if sp ! 4 AND 0x60 = 0x40 then 11
      else 12)"

definition wait_ms :: "u8 list \<Rightarrow> nat" where
  "wait_ms sp =
     (if crc8 sp 8 \<noteq> sp ! 8 then 750
      else if sp ! 4 AND 0x60 = 0x00 then 94
      else if sp ! 4 AND 0x60 = 0x20 then 188
      else if sp ! 4 AND 0x60 = 0x40 then 375
      else 750)"

text \<open>The whole trace of one \<open>readTemperature\<close> call.\<close>

definition conversion_events :: "DS18B20_7semi \<Rightarrow> rom \<Rightarrow> hw \<Rightarrow> event list" where
  "conversion_events self addr h =
     [Reset, Select addr, Write 0x44]
     @ scratch_events addr (line_bytes h 0 9)
     @ power_events addr (rx h (pos h + 9))
     @ (if rx h (pos h + 9) \<noteq> 1 \<and> 0 \<le> strongPullupPin self then pullup_events self HIGH else [])
     @ [Delay (wait_ms (line_bytes h 0 9))]
     @ (if rx h (pos h + 9) \<noteq> 1 \<and> 0 \<le> strongPullupPin self then pullup_events self LOW else [])
     @ scratch_events addr (line_bytes h 10 9)"

text \<open>Two driver objects: one without a strong pull-up pin, one with the pin 5.\<close>

definition plain_driver :: DS18B20_7semi where
  "plain_driver =
     \<lparr>devices = 0, addresses = replicate 16 (replicate 8 0), strongPullupPin = - 1, dataPin = 2\<rparr>"

definition wired_driver :: DS18B20_7semi where
  "wired_driver =
     \<lparr>devices = 0, addresses = replicate 16 (replicate 8 0), strongPullupPin = 5, dataPin = 2\<rparr>"

text \<open>Scratchpads holding the registers \<open>0x0191\<close> and \<open>0xFF5E\<close>, with their checksums.\<close>

definition warm_scratchpad :: "u8 list" where
  "warm_scratchpad = [0x91, 0x01, 0x4B, 0x46, 0x7F, 0xFF, 0x0C, 0x10, 0x70]"

definition cold_scratchpad :: "u8 list" where
  "cold_scratchpad = [0x5E, 0xFF, 0x4B, 0x46, 0x7F, 0xFF, 0x0C, 0x10, 0x6A]"

text \<open>A scratchpad whose configuration byte selects 9 bits.\<close>

definition nine_bit_scratchpad :: "u8 list" where
  "nine_bit_scratchpad = [0x50, 0x05, 0x4B, 0x46, 0x1F, 0xFF, 0x0C, 0x10, 0x8C]"

text \<open>
  A line with a parasite-powered sensor (the power-supply query reads 0) on which the
  scratchpad read after the conversion arrives with one bit flipped.
\<close>

definition noisy_line :: "u8 list" where
  "noisy_line = power_on_scratchpad @ [0] @ power_on_scratchpad[4 := 0x5F]"

text \<open>The test that \<open>searchDevices\<close> applies to a candidate address.\<close>

definition rom_ok :: "rom \<Rightarrow> bool" where
  "rom_ok addr = (crc8 addr 7 = addr ! 7)"

text \<open>
  Addresses of the family \<open>0x28\<close> with a serial number and a given last byte, and
  seventeen of them with matching checksums.
\<close>

definition tag :: "u8 \<Rightarrow> u8 \<Rightarrow> rom" where
  "tag serial crc = [0x28, serial, 0x00, 0x00, 0x00, 0x00, 0x00, crc]"

definition crowd :: "rom list" where
  "crowd = [tag 1 41, tag 2 112, tag 3 71, tag 4 194, tag 5 245, tag 6 172, tag 7 155,
            tag 8 191, tag 9 136, tag 10 209, tag 11 230, tag 12 99, tag 13 84, tag 14 13,
            tag 15 58, tag 16 69, tag 17 114]"

text \<open>
  What the driver last put into the device.  A write of the scratchpad is a \<open>select\<close>
  followed by the command \<open>0x4E\<close> and three data bytes; \<open>last_written\<close> gives the three
  data bytes of the last such write in a trace (the empty list when there is none).
\<close>

fun leading_writes :: "nat \<Rightarrow> event list \<Rightarrow> u8 list" where
  "leading_writes (Suc n) (Write v # es) = v # leading_writes n es"
| "leading_writes n es = []"

fun written_payload :: "u8 list \<Rightarrow> event list \<Rightarrow> u8 list" where
  "written_payload acc [] = acc"
| "written_payload acc (Select a # Write c # es) =
     (if c = 0x4E then written_payload (leading_writes 3 es) es else written_payload acc es)"
| "written_payload acc (e # es) = written_payload acc es"

definition last_written :: "event list \<Rightarrow> u8 list" where
  "last_written es = written_payload [] es"

text \<open>
  A scratchpad read \<open>sp\<close> echoes the trace \<open>es\<close> faithfully when its checksum matches and
  its bytes 2, 3 and 4 (high alarm, low alarm, configuration) are the three bytes that
  were last written.
\<close>

definition echoes :: "event list \<Rightarrow> u8 list \<Rightarrow> bool" where
  "echoes es sp = (crc8 sp 8 = sp ! 8 \<and> [sp ! 2, sp ! 3, sp ! 4] = last_written es)"

text \<open>The events of one scratchpad write, before its read-back.\<close>

definition write_events :: "rom \<Rightarrow> u8 \<Rightarrow> u8 \<Rightarrow> u8 \<Rightarrow> event list" where
  "write_events addr a b c = [Reset, Select addr, Write 0x4E, Write a, Write b, Write c]"

text \<open>The configuration byte that \<open>setResolution\<close> builds for a resolution.\<close>

definition config_byte :: "u8 \<Rightarrow> u8" where
  "config_byte resolution =
     (if resolution = 9 then 0x00
      else if resolution = 10 then 0x20
      else if resolution = 11 then 0x40
      else if resolution = 12 then 0x60
      else 0) OR 0x1F"

text \<open>The events of one \<open>copyScratchpad\<close> call whose power-supply query read \<open>v\<close>.\<close>

definition copy_events :: "DS18B20_7semi \<Rightarrow> rom \<Rightarrow> u8 \<Rightarrow> event list" where
  "copy_events self addr v =
     [Reset, Select addr, Write 0x48]
     @ power_events addr v
     @ (if v \<noteq> 1 \<and> 0 \<le> strongPullupPin self then pullup_events self HIGH else [])
     @ [Delay 11]
     @ (if v \<noteq> 1 \<and> 0 \<le> strongPullupPin self then pullup_events self LOW else [])"

text \<open>
  Lines for the round trips: the power-on scratchpad, then the read-back of the write
  and the next read, both with the bytes the driver is expected to write (configuration
  \<open>0x3F\<close> for 10 bits; alarms \<open>0x80\<close> and \<open>0x7F\<close>, that is -128 and 127).
\<close>

definition ten_bit_scratchpad :: "u8 list" where
  "ten_bit_scratchpad = [0x50, 0x05, 0x4B, 0x46, 0x3F, 0xFF, 0x0C, 0x10, 0xFC]"

definition ten_bit_line :: "u8 list" where
  "ten_bit_line = power_on_scratchpad @ ten_bit_scratchpad @ ten_bit_scratchpad"

definition alarm_scratchpad :: "u8 list" where
  "alarm_scratchpad = [0x50, 0x05, 0x80, 0x7F, 0x7F, 0xFF, 0x0C, 0x10, 0x0C]"

definition alarm_line :: "u8 list" where
  "alarm_line = power_on_scratchpad @ alarm_scratchpad @ alarm_scratchpad"

text \<open>The same with persisting: the power-supply query of the copy reads 0 in between.\<close>

definition alarm_copy_line :: "u8 list" where
  "alarm_copy_line = power_on_scratchpad @ alarm_scratchpad @ [0] @ alarm_scratchpad"

section \<open>Properties\<close>

subsection \<open>The trace of the bus primitives\<close>

lemma advance_advance: "advance (advance h n es) m fs = advance h (n + m) (es @ fs)"
  by (simp add: advance_def)

lemma advance_sel [simp]:
  "rx (advance h n es) = rx h" "pos (advance h n es) = pos h + n"
  "log (advance h n es) = log h @ es" "roms (advance h n es) = roms h"
  "cursor (advance h n es) = cursor h"
  by (simp_all add: advance_def)

lemma line_bytes_advance: "line_bytes (advance h m es) k n = line_bytes h (m + k) n"
  by (simp add: line_bytes_def add.assoc)

lemma emit_advance: "emit e h = advance h 0 [e]"
  by (simp add: emit_def advance_def)

lemma ow_read_eq: "ow_read h = (rx h (pos h), advance h 1 [Read (rx h (pos h))])"
  by (simp add: ow_read_def emit_def advance_def)

lemma line_bytes_Suc: "line_bytes h k (Suc n) = rx h (pos h + k) # line_bytes h (Suc k) n"
  by (simp add: line_bytes_def upt_conv_Cons del: upt_Suc)

lemma length_line_bytes [simp]: "length (line_bytes h k n) = n"
  by (simp add: line_bytes_def)

lemma nth_line_bytes [simp]: "i < n \<Longrightarrow> line_bytes h k n ! i = rx h (pos h + k + i)"
  by (simp add: line_bytes_def)

lemma read_bytes_eq:
  "read_bytes n h = (line_bytes h 0 n, advance h n (map Read (line_bytes h 0 n)))"
proof (induction n arbitrary: h)
  case 0
  then show ?case by (simp add: line_bytes_def advance_def)
next
  case (Suc n)
  then show ?case
    by (simp add: ow_read_eq line_bytes_advance advance_advance line_bytes_Suc [of h 0])
qed

lemmas bus_simps =
  ow_reset_def ow_select_def ow_write_def delay_def emit_advance ow_read_eq
  advance_advance line_bytes_advance

lemma readScratchpad_eq:
  "readScratchpad addr h =
     (crc8 (line_bytes h 0 9) 8 = line_bytes h 0 9 ! 8, line_bytes h 0 9,
      advance h 9 ([Reset, Select addr, Write 0xBE] @ map Read (line_bytes h 0 9)))"
  by (simp add: readScratchpad_def bus_simps read_bytes_eq Let_def)

lemma readPowerSupply_eq:
  "readPowerSupply addr h =
     (True, rx h (pos h) = 1,
      advance h 1 [Reset, Select addr, Write 0xB4, Read (rx h (pos h))])"
  by (simp add: readPowerSupply_def bus_simps)

subsection \<open>The checksum detects every change confined to one byte\<close>

lemma bit7_poly: "bit (0x8C :: u8) 7"
  by (simp add: bit_iff_odd)

lemma bit7_shifted: "\<not> bit (drop_bit 1 (c::u8)) 7"
  using bit_imp_le_length [of c 8] by (auto simp add: bit_drop_bit_eq)

lemma mix_odd: "(c AND 1 \<noteq> 0) = odd (c::u8)"
  by (simp add: and_one_eq mod_2_eq_odd)

lemma crc8_step_bit7: "bit (crc8_step c) 7 = odd c"
  using bit7_poly bit7_shifted [of c] by (simp add: crc8_step_def mix_odd bit_xor_iff)

lemma xor_cancel_right: "(a::u8) XOR k = b XOR k \<Longrightarrow> a = b"
proof -
  assume "a XOR k = b XOR k"
  then have "(a XOR k) XOR k = (b XOR k) XOR k" by simp
  then show "a = b" by (simp add: xor.assoc)
qed

lemma crc8_step_inj: "crc8_step c = crc8_step d \<Longrightarrow> c = d"
proof -
  assume eq: "crc8_step c = crc8_step d"
  then have par: "odd c = odd d"
    using crc8_step_bit7 [of c] crc8_step_bit7 [of d] by simp
  with eq have "drop_bit 1 c = drop_bit 1 d"
    by (auto simp add: crc8_step_def mix_odd dest: xor_cancel_right)
  then have "c div 2 = d div 2"
    by (simp add: drop_bit_eq_div)
  with par show "c = d"
    by (simp add: bit_eq_rec [of c d])
qed

lemma crc8_bits_Suc_step:
  "crc8_bits (Suc n) c x = crc8_bits n (crc8_step (c XOR x) XOR drop_bit 1 x) (drop_bit 1 x)"
proof -
  have "drop_bit 1 (c XOR x) XOR drop_bit 1 x = drop_bit 1 c"
    by (simp add: drop_bit_xor xor.assoc del: drop_bit_Suc)
  moreover have "(drop_bit 1 (c XOR x) XOR 0x8C) XOR drop_bit 1 x = drop_bit 1 c XOR 0x8C"
    by (simp add: drop_bit_xor xor.assoc xor.commute xor.left_commute del: drop_bit_Suc)
  ultimately show ?thesis
    by (simp add: Let_def crc8_step_def del: drop_bit_Suc)
qed

text \<open>The byte still to be shifted in can be folded into the register at once.\<close>

lemma crc8_bits_xor: "crc8_bits n c x = crc8_bits n (c XOR x) 0 XOR drop_bit n x"
proof (induction n arbitrary: c x)
  case 0
  then show ?case by (simp add: xor.assoc)
next
  case (Suc n)
  have "crc8_bits (Suc n) c x = crc8_bits n (crc8_step (c XOR x) XOR drop_bit 1 x) (drop_bit 1 x)"
    by (rule crc8_bits_Suc_step)
  also have "\<dots> = crc8_bits n (crc8_step (c XOR x)) 0 XOR drop_bit (Suc n) x"
    using Suc.IH [of "crc8_step (c XOR x) XOR drop_bit 1 x" "drop_bit 1 x"]
    by (simp add: xor.assoc drop_bit_Suc)
  also have "crc8_bits n (crc8_step (c XOR x)) 0 = crc8_bits (Suc n) (c XOR x) 0"
    using crc8_bits_Suc_step [of n "c XOR x" 0] by simp
  finally show ?case .
qed

lemma crc8_bits_inj_crc: "crc8_bits n c 0 = crc8_bits n d 0 \<Longrightarrow> c = d"
proof (induction n arbitrary: c d)
  case 0
  then show ?case by simp
next
  case (Suc n)
  from Suc.prems have "crc8_bits n (crc8_step c) 0 = crc8_bits n (crc8_step d) 0"
    by (simp add: crc8_bits_Suc_step del: crc8_bits.simps)
  then have "crc8_step c = crc8_step d" by (rule Suc.IH)
  then show ?case by (rule crc8_step_inj)
qed

lemma crc8_byte: "crc8_bits 8 c x = crc8_bits 8 (c XOR x) 0"
  using crc8_bits_xor [of 8 c x] by (simp add: drop_bit_word_beyond)

lemma crc8_byte_inj: "crc8_bits 8 c x = crc8_bits 8 d y \<Longrightarrow> c XOR x = d XOR y"
  using crc8_bits_inj_crc [of 8 "c XOR x" "d XOR y"] crc8_byte [of c x] crc8_byte [of d y]
  by simp

lemma crc8_bytes_inj: "crc8_bytes c xs = crc8_bytes d xs \<Longrightarrow> c = d"
proof (induction xs arbitrary: c d)
  case Nil
  then show ?case by simp
next
  case (Cons x xs)
  from Cons.prems have "crc8_bits 8 c x = crc8_bits 8 d x"
    using Cons.IH by simp
  then have "c XOR x = d XOR x" by (rule crc8_byte_inj)
  then show ?case by (rule xor_cancel_right)
qed

lemma crc8_bytes_update:
  "i < length xs \<Longrightarrow> v \<noteq> xs ! i \<Longrightarrow> crc8_bytes c (xs[i := v]) \<noteq> crc8_bytes c xs"
proof (induction xs arbitrary: c i)
  case Nil
  then show ?case by simp
next
  case (Cons x xs)
  show ?case
  proof (cases i)
    case 0
    with Cons.prems have "v \<noteq> x" by simp
    have "crc8_bits 8 c v \<noteq> crc8_bits 8 c x"
    proof
      assume "crc8_bits 8 c v = crc8_bits 8 c x"
      then have "c XOR v = c XOR x" by (rule crc8_byte_inj)
      then have "v XOR c = x XOR c" by (simp add: xor.commute)
      then have "v = x" by (rule xor_cancel_right)
      with \<open>v \<noteq> x\<close> show False by simp
    qed
    then have "crc8_bytes (crc8_bits 8 c v) xs \<noteq> crc8_bytes (crc8_bits 8 c x) xs"
      using crc8_bytes_inj by blast
    with 0 show ?thesis by simp
  next
    case (Suc j)
    with Cons.prems Cons.IH [of j "crc8_bits 8 c x"] show ?thesis by simp
  qed
qed

text \<open>The example of the 1-Wire application notes: the address with checksum \<open>0xA2\<close>.\<close>

lemma crc8_known_address: "crc8 [0x02, 0x1C, 0xB8, 0x01, 0x00, 0x00, 0x00] 7 = 0xA2"
  by code_simp

lemma flip_bit_changes: "k < 8 \<Longrightarrow> flip_bit k (w::u8) \<noteq> w"
proof
  assume "k < 8" and "flip_bit k w = w"
  then have "bit (flip_bit k w) k = bit w k" by simp
  with \<open>k < 8\<close> show False by (simp add: bit_flip_bit_iff)
qed

lemma crc8_flip:
  assumes "length sp = 9" and "i < 8" and "k < 8"
  shows "crc8 (sp[i := flip_bit k (sp ! i)]) 8 \<noteq> crc8 sp 8"
proof -
  have "crc8_bytes 0 ((take 8 sp)[i := flip_bit k (take 8 sp ! i)]) \<noteq> crc8_bytes 0 (take 8 sp)"
    using assms by (intro crc8_bytes_update flip_bit_changes) simp_all
  with assms show ?thesis by (simp add: crc8_def take_update_swap)
qed

lemma line_bytes_bench: "n \<le> length bs \<Longrightarrow> line_bytes (bench bs cands) 0 n = take n bs"
  by (auto simp add: line_bytes_def bench_def intro!: nth_equalityI)

subsection \<open>Scratchpad reads and the checksum\<close>

text \<open>
  Claim C1.  \<open>readScratchpad\<close> hands over the nine bytes that the line delivers, and it
  returns true if and only if the checksum of the first eight equals the ninth.  In
  particular, when a read is accepted, the same nine bytes with one bit flipped in one
  of the first eight are rejected.
\<close>

theorem readScratchpad_crc_iff:
  "fst (snd (readScratchpad addr h)) = line_bytes h 0 9
   \<and> (fst (readScratchpad addr h) \<longleftrightarrow> crc8 (line_bytes h 0 9) 8 = line_bytes h 0 9 ! 8)
   \<and> (\<forall>h' i k. fst (readScratchpad addr h) \<and> i < 8 \<and> k < 8
         \<and> line_bytes h' 0 9 = (line_bytes h 0 9)[i := flip_bit k (line_bytes h 0 9 ! i)]
       \<longrightarrow> \<not> fst (readScratchpad addr h'))"
proof (intro conjI allI impI)
  show "fst (snd (readScratchpad addr h)) = line_bytes h 0 9"
    by (simp add: readScratchpad_eq)
  show "fst (readScratchpad addr h) \<longleftrightarrow> crc8 (line_bytes h 0 9) 8 = line_bytes h 0 9 ! 8"
    by (simp add: readScratchpad_eq)
next
  fix h' i k
  assume a: "fst (readScratchpad addr h) \<and> i < 8 \<and> k < 8
         \<and> line_bytes h' 0 9 = (line_bytes h 0 9)[i := flip_bit k (line_bytes h 0 9 ! i)]"
  let ?sp = "line_bytes h 0 9"
  from a have ok: "crc8 ?sp 8 = ?sp ! 8" by (simp add: readScratchpad_eq)
  from a have "crc8 (line_bytes h' 0 9) 8 \<noteq> crc8 ?sp 8"
    using crc8_flip [of ?sp i k] by simp
  moreover from a have "line_bytes h' 0 9 ! 8 = ?sp ! 8"
    by (simp del: nth_line_bytes)
  ultimately show "\<not> fst (readScratchpad addr h')"
    using ok by (simp add: readScratchpad_eq del: nth_line_bytes)
qed

text \<open>
  The power-on scratchpad is accepted; with bit 5 of its configuration byte flipped
  (\<open>0x7F\<close> becomes \<open>0x5F\<close>) it is rejected.
\<close>

theorem readScratchpad_crc_iff_witness:
  "fst (readScratchpad sensor (bench power_on_scratchpad []))
   \<and> \<not> fst (readScratchpad sensor (bench (power_on_scratchpad[4 := 0x5F]) []))"
proof -
  let ?h = "bench power_on_scratchpad []"
  let ?h' = "bench (power_on_scratchpad[4 := 0x5F]) []"
  have sp: "line_bytes ?h 0 9 = power_on_scratchpad"
    by (simp add: line_bytes_bench power_on_scratchpad_def)
  have sp': "line_bytes ?h' 0 9 = power_on_scratchpad[4 := 0x5F]"
    by (simp add: line_bytes_bench power_on_scratchpad_def)
  have crc: "crc8 power_on_scratchpad 8 = power_on_scratchpad ! 8"
    unfolding power_on_scratchpad_def by code_simp
  have flip: "flip_bit 5 (power_on_scratchpad ! 4) = 0x5F"
    by (simp add: power_on_scratchpad_def flip_bit_eq_xor)
  note inst = readScratchpad_crc_iff [of sensor ?h]
  from inst crc sp have ok: "fst (readScratchpad sensor ?h)" by simp
  moreover from inst have "fst (readScratchpad sensor ?h) \<and> (4::nat) < 8 \<and> (5::nat) < 8
         \<and> line_bytes ?h' 0 9 = (line_bytes ?h 0 9)[4 := flip_bit 5 (line_bytes ?h 0 9 ! 4)]
       \<longrightarrow> \<not> fst (readScratchpad sensor ?h')" by blast
  ultimately show ?thesis using sp sp' flip by simp
qed

subsection \<open>The trace of the driver's operations\<close>

lemma new_events_advance [simp]: "new_events h (advance h n es) = es"
  by (simp add: new_events_def)

lemma advance_0_Nil [simp]: "advance h 0 [] = h"
  by (simp add: advance_def)

lemma strongPullup_eq:
  "strongPullup self on h = advance h 0 (pullup_events self (if on then HIGH else LOW))"
  by (simp add: strongPullup_def pullup_events_def bus_simps Let_def)

lemma readScratchpad_events:
  "readScratchpad addr h =
     (crc8 (line_bytes h 0 9) 8 = line_bytes h 0 9 ! 8, line_bytes h 0 9,
      advance h 9 (scratch_events addr (line_bytes h 0 9)))"
  by (simp add: readScratchpad_eq scratch_events_def)

lemma readPowerSupply_events:
  "readPowerSupply addr h =
     (True, rx h (pos h) = 1, advance h 1 (power_events addr (rx h (pos h))))"
  by (simp add: readPowerSupply_eq power_events_def)

lemma getResolution_eq:
  "getResolution addr h =
     (decode_resolution (line_bytes h 0 9),
      advance h 9 (scratch_events addr (line_bytes h 0 9)))"
  by (simp add: getResolution_def readScratchpad_events decode_resolution_def Let_def
      del: nth_line_bytes)

lemma wait_ms_eq:
  "Delay (unat (conversionDelayMs
      (if decode_resolution sp < 9 \<or> decode_resolution sp > 12 then 12
       else decode_resolution sp))) = Delay (wait_ms sp)"
  by (simp add: conversionDelayMs_def decode_resolution_def wait_ms_def)

lemma readTemperature_eq:
  "readTemperature self addr h =
     (if crc8 (line_bytes h 10 9) 8 \<noteq> line_bytes h 10 9 ! 8 then None
      else Some (real_of_int (raw_temperature (line_bytes h 10 9)) / 16),
      advance h 19 (conversion_events self addr h))"
proof -
  have "readTemperature self addr h =
     (if crc8 (line_bytes h 10 9) 8 \<noteq> line_bytes h 10 9 ! 8 then None
      else Some (real_of_int (raw_temperature (line_bytes h 10 9)) / 16),
      advance h 19 ([Reset, Select addr, Write 0x44]
     @ scratch_events addr (line_bytes h 0 9)
     @ power_events addr (rx h (pos h + 9))
     @ (if rx h (pos h + 9) \<noteq> 1 \<and> 0 \<le> strongPullupPin self
        then pullup_events self HIGH else [])
     @ [Delay (unat (conversionDelayMs (if decode_resolution (line_bytes h 0 9) < 9
           \<or> decode_resolution (line_bytes h 0 9) > 12 then 12
      else decode_resolution (line_bytes h 0 9))))]
     @ (if rx h (pos h + 9) \<noteq> 1 \<and> 0 \<le> strongPullupPin self
        then pullup_events self LOW else [])
     @ scratch_events addr (line_bytes h 10 9)))"
    by (simp add: readTemperature_def getResolution_eq readPowerSupply_events
        readScratchpad_events strongPullup_eq bus_simps Let_def del: nth_line_bytes)
  then show ?thesis
    by (simp only: wait_ms_eq conversion_events_def)
qed

subsection \<open>The raw temperature register\<close>

lemma raw_or_add:
  "push_bit 8 (ucast (a::u8)) OR ucast (b::u8) = push_bit 8 (ucast a :: u16) + ucast b"
  by (rule disjunctive_add [symmetric])
     (auto simp: bit_push_bit_iff bit_ucast_iff dest: bit_imp_le_length)

lemma uint_ucast_u8: "uint (ucast (b::u8) :: u16) = uint b"
  by (simp add: uint_up_ucast is_up)

lemma u8_bound: "uint (a::u8) < 256"
  using uint_bounded [of a] by simp

lemma uint_push8: "uint (push_bit 8 (ucast (a::u8) :: u16)) = 256 * uint a"
proof -
  have "uint (push_bit 8 (ucast a :: u16)) = (uint (ucast a :: u16) * 256) mod 65536"
    by (simp add: push_bit_eq_mult uint_word_ariths)
  also have "\<dots> = (uint a * 256) mod 65536" by (simp add: uint_ucast_u8)
  also have "\<dots> = uint a * 256" using u8_bound [of a] by simp
  finally show ?thesis by simp
qed

lemma raw_uint:
  "uint (push_bit 8 (ucast a) OR ucast b :: u16) = 256 * uint (a::u8) + uint (b::u8)"
proof -
  have "uint (push_bit 8 (ucast a) OR ucast b :: u16) = (256 * uint a + uint b) mod 65536"
    by (simp add: raw_or_add uint_word_ariths uint_ucast_u8 uint_push8)
  also have "\<dots> = 256 * uint a + uint b"
    using u8_bound [of a] u8_bound [of b] by simp
  finally show ?thesis .
qed

lemma signed16:
  "0 \<le> v \<Longrightarrow> v < 65536 \<Longrightarrow>
   signed_take_bit 15 (v::int) = (if v < 32768 then v else v - 65536)"
proof -
  assume v: "0 \<le> v" "v < 65536"
  have "signed_take_bit 15 v = (v + 32768) mod 65536 - 32768"
    by (simp add: signed_take_bit_eq_take_bit_shift take_bit_eq_mod)
  moreover have "v < 32768 \<Longrightarrow> (v + 32768) mod 65536 = v + 32768"
    using v by simp
  moreover have "\<not> v < 32768 \<Longrightarrow> (v + 32768) mod 65536 = v + 32768 - 65536"
    using v by (simp add: mod_pos_geq)
  ultimately show ?thesis by simp
qed

text \<open>Byte 1 is the high byte, byte 0 the low byte, and the sign is that of bit 15.\<close>

lemma raw_temperature_value:
  "raw_temperature sp =
     (if uint (sp ! 1) < 128 then 256 * uint (sp ! 1) + uint (sp ! 0)
      else 256 * uint (sp ! 1) + uint (sp ! 0) - 65536)"
proof -
  let ?w = "push_bit 8 (ucast (sp ! 1)) OR ucast (sp ! 0) :: u16"
  let ?v = "256 * uint (sp ! 1) + uint (sp ! 0)"
  have range: "0 \<le> ?v" "?v < 65536"
    using u8_bound [of "sp ! 1"] u8_bound [of "sp ! 0"] by simp_all
  have "sint ?w = signed_take_bit 15 (uint ?w)"
    by (simp add: sint_uint)
  also have "\<dots> = signed_take_bit 15 ?v"
    by (simp only: raw_uint)
  also have "\<dots> = (if ?v < 32768 then ?v else ?v - 65536)"
    using range by (rule signed16)
  also have "?v < 32768 \<longleftrightarrow> uint (sp ! 1) < 128"
    using u8_bound [of "sp ! 0"] uint_ge_0 [of "sp ! 0"] by arith
  finally show ?thesis
    by (simp add: raw_temperature_def)
qed

lemma line_bytes_bench_drop:
  "k + n \<le> length bs \<Longrightarrow> line_bytes (bench bs cands) k n = take n (drop k bs)"
  by (auto simp add: line_bytes_def bench_def intro!: nth_equalityI)

subsection \<open>Decoding the temperature\<close>

text \<open>
  Claim C3.  In \<open>readTemperature\<close> the line first delivers nine bytes to \<open>getResolution\<close>
  and one to \<open>readPowerSupply\<close>; the read after the conversion receives the bytes 10 to
  18.  When their checksum matches, the result is the register divided by 16, where the
  register is the signed 16-bit value with byte 1 as high byte and byte 0 as low byte:
  \<open>0x0191\<close> gives 25.0625 and \<open>0xFF5E\<close> gives -10.125.
\<close>

theorem readTemperature_decodes:
  assumes "crc8 (line_bytes h 10 9) 8 = line_bytes h 10 9 ! 8"
  shows "fst (readTemperature self addr h)
           = Some (real_of_int (raw_temperature (line_bytes h 10 9)) / 16)
     \<and> raw_temperature (line_bytes h 10 9)
           = (if uint (line_bytes h 10 9 ! 1) < 128
              then 256 * uint (line_bytes h 10 9 ! 1) + uint (line_bytes h 10 9 ! 0)
              else 256 * uint (line_bytes h 10 9 ! 1) + uint (line_bytes h 10 9 ! 0) - 65536)
     \<and> (line_bytes h 10 9 ! 1 = 0x01 \<and> line_bytes h 10 9 ! 0 = 0x91
          \<longrightarrow> fst (readTemperature self addr h) = Some 25.0625)
     \<and> (line_bytes h 10 9 ! 1 = 0xFF \<and> line_bytes h 10 9 ! 0 = 0x5E
          \<longrightarrow> fst (readTemperature self addr h) = Some (- 10.125))"
proof -
  let ?sp = "line_bytes h 10 9"
  have val: "fst (readTemperature self addr h) = Some (real_of_int (raw_temperature ?sp) / 16)"
    using assms by (simp add: readTemperature_eq del: nth_line_bytes)
  have warm: "raw_temperature ?sp = 401" if "?sp ! 1 = 0x01 \<and> ?sp ! 0 = 0x91"
    using that by (simp add: raw_temperature_value del: nth_line_bytes)
  have cold: "raw_temperature ?sp = - 162" if "?sp ! 1 = 0xFF \<and> ?sp ! 0 = 0x5E"
    using that by (simp add: raw_temperature_value del: nth_line_bytes)
  show ?thesis
    using val warm cold raw_temperature_value [of ?sp] by (auto simp del: nth_line_bytes)
qed

text \<open>An externally powered sensor, read without a pull-up pin, at both registers.\<close>

theorem readTemperature_decodes_witness:
  "fst (readTemperature plain_driver sensor
          (bench (power_on_scratchpad @ [1] @ warm_scratchpad) [])) = Some 25.0625
   \<and> fst (readTemperature plain_driver sensor
          (bench (power_on_scratchpad @ [1] @ cold_scratchpad) [])) = Some (- 10.125)"
proof -
  let ?hw = "bench (power_on_scratchpad @ [1] @ warm_scratchpad) []"
  let ?hc = "bench (power_on_scratchpad @ [1] @ cold_scratchpad) []"
  have w: "line_bytes ?hw 10 9 = warm_scratchpad"
    by (simp add: line_bytes_bench_drop power_on_scratchpad_def warm_scratchpad_def)
  have c: "line_bytes ?hc 10 9 = cold_scratchpad"
    by (simp add: line_bytes_bench_drop power_on_scratchpad_def cold_scratchpad_def)
  have wcrc: "crc8 warm_scratchpad 8 = warm_scratchpad ! 8"
    unfolding warm_scratchpad_def by code_simp
  have ccrc: "crc8 cold_scratchpad 8 = cold_scratchpad ! 8"
    unfolding cold_scratchpad_def by code_simp
  have "fst (readTemperature plain_driver sensor ?hw) = Some 25.0625"
    using readTemperature_decodes [of ?hw plain_driver sensor] wcrc
    by (simp only: w) (simp add: warm_scratchpad_def)
  moreover have "fst (readTemperature plain_driver sensor ?hc) = Some (- 10.125)"
    using readTemperature_decodes [of ?hc plain_driver sensor] ccrc
    by (simp only: c) (simp add: cold_scratchpad_def)
  ultimately show ?thesis by simp
qed

lemma delays_append [simp]: "delays (es @ fs) = delays es @ delays fs"
  by (induction es rule: delays.induct) simp_all

lemma delays_map_Read [simp]: "delays (map Read bs) = []"
  by (induction bs) simp_all

lemma delays_pullup [simp]: "delays (pullup_events self l) = []"
  by (simp add: pullup_events_def)

lemma delays_conversion: "delays (conversion_events self addr h) = [wait_ms (line_bytes h 0 9)]"
  by (simp add: conversion_events_def scratch_events_def power_events_def del: nth_line_bytes)

lemma u8_outside: "(r::u8) \<notin> {9, 10, 11, 12} \<Longrightarrow> r < 9 \<or> r > 12"
  apply (simp add: word_less_nat_alt)
  apply unat_arith
  done

subsection \<open>The conversion wait\<close>

text \<open>
  Claim C6.  \<open>_conversionDelayMs\<close> gives 94 ms for resolution 9, 188 ms for 10, 375 ms for
  11 and 750 ms for 12 and for every other value.  \<open>readTemperature\<close> waits exactly once,
  for the time that belongs to the resolution \<open>getResolution\<close> reports after the
  conversion command; when that is not one of 9, 10 and 11 (12, or the 0 of a failed
  read), the wait is 750 ms.
\<close>

theorem conversion_delay_selection:
  "conversionDelayMs 9 = 94 \<and> conversionDelayMs 10 = 188
   \<and> conversionDelayMs 11 = 375 \<and> conversionDelayMs 12 = 750
   \<and> (\<forall>r. r \<notin> {9, 10, 11, 12} \<longrightarrow> conversionDelayMs r = 750)
   \<and> delays (new_events h (snd (readTemperature self addr h)))
       = (let r = fst (getResolution addr (ow_write 0x44 (ow_select addr (ow_reset h))))
          in [if r = 9 then 94 else if r = 10 then 188 else if r = 11 then 375 else 750])"
proof -
  have table: "conversionDelayMs 9 = 94 \<and> conversionDelayMs 10 = 188
   \<and> conversionDelayMs 11 = 375 \<and> conversionDelayMs 12 = 750
   \<and> (\<forall>r. r \<notin> {9, 10, 11, 12} \<longrightarrow> conversionDelayMs r = 750)"
    by (simp add: conversionDelayMs_def)
  have "fst (getResolution addr (ow_write 0x44 (ow_select addr (ow_reset h))))
          = decode_resolution (line_bytes h 0 9)"
    by (simp add: getResolution_eq bus_simps)
  moreover have "wait_ms sp = (let r = decode_resolution sp
          in if r = 9 then 94 else if r = 10 then 188 else if r = 11 then 375 else 750)" for sp
    by (simp add: wait_ms_def decode_resolution_def)
  ultimately have "delays (new_events h (snd (readTemperature self addr h)))
       = (let r = fst (getResolution addr (ow_write 0x44 (ow_select addr (ow_reset h))))
          in [if r = 9 then 94 else if r = 10 then 188 else if r = 11 then 375 else 750])"
    by (simp add: readTemperature_eq delays_conversion Let_def del: nth_line_bytes)
  with table show ?thesis by blast
qed

text \<open>
  The value 0 is outside the table and waits 750 ms; a sensor configured for 9 bits makes
  \<open>readTemperature\<close> wait 94 ms.
\<close>

theorem conversion_delay_selection_witness:
  "(0::u8) \<notin> {9, 10, 11, 12} \<and> conversionDelayMs 0 = 750
   \<and> delays (new_events (bench nine_bit_scratchpad [])
        (snd (readTemperature plain_driver sensor (bench nine_bit_scratchpad [])))) = [94]"
proof -
  let ?h = "bench nine_bit_scratchpad []"
  note inst = conversion_delay_selection [of ?h plain_driver sensor]
  have sp: "line_bytes ?h 0 9 = nine_bit_scratchpad"
    by (simp add: line_bytes_bench nine_bit_scratchpad_def)
  have crc: "crc8 nine_bit_scratchpad 8 = nine_bit_scratchpad ! 8"
    unfolding nine_bit_scratchpad_def by code_simp
  have "decode_resolution nine_bit_scratchpad = 9"
    using crc by (simp add: decode_resolution_def) (simp add: nine_bit_scratchpad_def)
  then have r: "fst (getResolution sensor (ow_write 0x44 (ow_select sensor (ow_reset ?h)))) = 9"
    by (simp add: getResolution_eq bus_simps sp)
  have out: "(0::u8) \<notin> {9, 10, 11, 12}" by simp
  from inst out have "conversionDelayMs 0 = 750" by blast
  moreover from inst r have "delays (new_events ?h (snd (readTemperature plain_driver sensor ?h))) = [94]"
    by (simp add: Let_def)
  ultimately show ?thesis using out by simp
qed

subsection \<open>Invalid resolutions\<close>

text \<open>
  Claim C9.  For a resolution outside 9, 10, 11 and 12, \<open>setResolution\<close> returns false and
  leaves the environment as it was: no read, no event on the bus, so nothing is written
  to the device.
\<close>

theorem setResolution_rejects:
  "resolution \<notin> {9, 10, 11, 12} \<Longrightarrow>
   setResolution self addr resolution persistToEeprom h = (False, h)"
  using u8_outside [of resolution] by (auto simp add: setResolution_def)

text \<open>Resolution 13, even with the request to persist.\<close>

theorem setResolution_rejects_witness:
  "(13::u8) \<notin> {9, 10, 11, 12}
   \<and> setResolution wired_driver sensor 13 True (bench power_on_scratchpad [])
       = (False, bench power_on_scratchpad [])"
proof -
  have out: "(13::u8) \<notin> {9, 10, 11, 12}" by simp
  from setResolution_rejects [OF out] out show ?thesis by simp
qed

lemma is_assert_append [simp]: "list_ex is_assert (es @ fs) = (list_ex is_assert es \<or> list_ex is_assert fs)"
  by simp

lemma no_assert_Read [simp]: "\<not> list_ex is_assert (map Read bs)"
  by (induction bs) simp_all

lemma assert_pullup:
  "list_ex is_assert (pullup_events self l) = (0 \<le> strongPullupPin self \<and> l = HIGH)"
  by (cases l) (auto simp add: pullup_events_def)

lemma assert_conversion:
  "list_ex is_assert (conversion_events self addr h)
     = (0 \<le> strongPullupPin self \<and> rx h (pos h + 9) \<noteq> 1)"
  by (auto simp add: conversion_events_def scratch_events_def power_events_def assert_pullup
      simp del: nth_line_bytes)

lemma noisy_line_bytes:
  "line_bytes (bench noisy_line []) 10 9 = power_on_scratchpad[4 := 0x5F]"
  by (simp add: noisy_line_def line_bytes_bench_drop power_on_scratchpad_def)

lemma noisy_crc: 
  "crc8 (power_on_scratchpad[4 := 0x5F]) 8 \<noteq> power_on_scratchpad[4 := 0x5F] ! 8"
  unfolding power_on_scratchpad_def by code_simp

subsection \<open>A failed read after the conversion\<close>

text \<open>
  Claim C7, as the code has it.  When the scratchpad read after the conversion fails its
  checksum, \<open>readTemperature\<close> returns \<open>NAN\<close>.  The strong pull-up is driven before that
  read is made and does not depend on its outcome: it is asserted during the call exactly
  when a pin is configured and the power-supply query read a byte other than 1.
\<close>

theorem readTemperature_crc_failure:
  assumes "crc8 (line_bytes h 10 9) 8 \<noteq> line_bytes h 10 9 ! 8"
  shows "fst (readTemperature self addr h) = None
     \<and> (list_ex is_assert (new_events h (snd (readTemperature self addr h)))
          \<longleftrightarrow> 0 \<le> strongPullupPin self \<and> rx h (pos h + 9) \<noteq> 1)"
  using assms by (simp add: readTemperature_eq assert_conversion del: nth_line_bytes)

text \<open>Without a pin the failed read gives \<open>NAN\<close> and the pull-up is never asserted.\<close>

theorem readTemperature_crc_failure_witness:
  "crc8 (line_bytes (bench noisy_line []) 10 9) 8 \<noteq> line_bytes (bench noisy_line []) 10 9 ! 8
   \<and> fst (readTemperature plain_driver sensor (bench noisy_line [])) = None
   \<and> \<not> list_ex is_assert (new_events (bench noisy_line [])
          (snd (readTemperature plain_driver sensor (bench noisy_line []))))"
proof -
  have bad: "crc8 (line_bytes (bench noisy_line []) 10 9) 8 \<noteq> line_bytes (bench noisy_line []) 10 9 ! 8"
    unfolding noisy_line_bytes by (rule noisy_crc)
  from readTemperature_crc_failure [OF bad, of plain_driver sensor] bad
  show ?thesis by (simp add: plain_driver_def del: nth_line_bytes)
qed

text \<open>
  Claim C7 as stated fails: on the same line, the driver with the pin 5 returns \<open>NAN\<close> and
  has driven the pin high.
\<close>

theorem readTemperature_crc_failure_asserts_pullup:
  "crc8 (line_bytes (bench noisy_line []) 10 9) 8 \<noteq> line_bytes (bench noisy_line []) 10 9 ! 8
   \<and> fst (readTemperature wired_driver sensor (bench noisy_line [])) = None
   \<and> DigitalWrite 5 HIGH \<in> set (log (snd (readTemperature wired_driver sensor (bench noisy_line []))))"
proof -
  have bad: "crc8 (line_bytes (bench noisy_line []) 10 9) 8 \<noteq> line_bytes (bench noisy_line []) 10 9 ! 8"
    unfolding noisy_line_bytes by (rule noisy_crc)
  have "rx (bench noisy_line []) 9 = 0"
    by (simp add: bench_def noisy_line_def power_on_scratchpad_def)
  moreover have "pos (bench noisy_line []) = 0"
    by (simp add: bench_def)
  ultimately have "DigitalWrite 5 HIGH \<in> set (conversion_events wired_driver sensor (bench noisy_line []))"
    by (simp add: conversion_events_def pullup_events_def wired_driver_def)
  with bad show ?thesis
    by (simp add: readTemperature_eq del: nth_line_bytes)
qed

subsection \<open>The power-supply query\<close>

text \<open>
  Claim C10.  \<open>readPowerSupply\<close> always returns true, and it reports external power
  exactly when the byte read is 1 (so \<open>0xFF\<close> counts as parasite power).  Hence
  \<open>isParasitePower\<close> is always the negation of that flag, never the false of its failure
  branch, and in \<open>readTemperature\<close> the pull-up is asserted exactly when the byte differs
  from 1 and a pin is configured: the test of \<open>extKnown\<close> never decides anything.
\<close>

theorem readPowerSupply_always_known:
  "fst (readPowerSupply addr h)
   \<and> fst (snd (readPowerSupply addr h)) = (rx h (pos h) = 1)
   \<and> isParasitePower addr h = (rx h (pos h) \<noteq> 1, snd (snd (readPowerSupply addr h)))
   \<and> (list_ex is_assert (new_events h (snd (readTemperature self addr h)))
        \<longleftrightarrow> rx h (pos h + 9) \<noteq> 1 \<and> 0 \<le> strongPullupPin self)"
  by (auto simp add: readPowerSupply_eq isParasitePower_def readTemperature_eq assert_conversion
      simp del: nth_line_bytes)

subsection \<open>Copying the scratchpad to the EEPROM\<close>

text \<open>
  Claim C8, as the code has it.  \<open>copyScratchpad\<close> returns true and issues the copy
  command \<open>0x48\<close> first; the power mode is queried after it, in a bus transaction of its
  own (reset, select, \<open>0xB4\<close>, one read), and before the pull-up decision.  When the byte
  read differs from 1 and a pin is configured, the pull-up is asserted after that query,
  held for \<open>delay(11)\<close> and de-asserted, with no bus transaction between assertion and
  de-assertion; otherwise there is only the wait of 11 ms.
\<close>

theorem copyScratchpad_trace:
  "fst (copyScratchpad self addr h)
   \<and> new_events h (snd (copyScratchpad self addr h))
       = [Reset, Select addr, Write 0x48,
          Reset, Select addr, Write 0xB4, Read (rx h (pos h))]
         @ (if rx h (pos h) \<noteq> 1 \<and> 0 \<le> strongPullupPin self
            then [PinModeOutput (word_of_int (strongPullupPin self)),
                  DigitalWrite (word_of_int (strongPullupPin self)) HIGH,
                  Delay 11,
                  PinModeOutput (word_of_int (strongPullupPin self)),
                  DigitalWrite (word_of_int (strongPullupPin self)) LOW]
            else [Delay 11])"
  by (simp add: copyScratchpad_def readPowerSupply_events strongPullup_eq bus_simps
      power_events_def pullup_events_def Let_def)

text \<open>
  Claim C8 as stated fails: for a parasite-powered sensor and the pin 5, a reset, a
  select and the command \<open>0xB4\<close> lie between the copy command and the release of the
  pull-up, and the pull-up is asserted only after them.  The second equation lists the
  events after the copy command and before the release.
\<close>

theorem copyScratchpad_queries_after_command:
  "log (snd (copyScratchpad wired_driver sensor (bench [0] [])))
     = [Reset, Select sensor, Write 0x48,
        Reset, Select sensor, Write 0xB4, Read 0,
        PinModeOutput 5, DigitalWrite 5 HIGH, Delay 11, PinModeOutput 5, DigitalWrite 5 LOW]
   \<and> takeWhile (\<lambda>e. e \<noteq> DigitalWrite 5 LOW)
        (drop 1 (dropWhile (\<lambda>e. e \<noteq> Write 0x48)
           (log (snd (copyScratchpad wired_driver sensor (bench [0] []))))))
     = [Reset, Select sensor, Write 0xB4, Read 0,
        PinModeOutput 5, DigitalWrite 5 HIGH, Delay 11, PinModeOutput 5]"
proof -
  have "log (snd (copyScratchpad wired_driver sensor (bench [0] [])))
     = [Reset, Select sensor, Write 0x48,
        Reset, Select sensor, Write 0xB4, Read 0,
        PinModeOutput 5, DigitalWrite 5 HIGH, Delay 11, PinModeOutput 5, DigitalWrite 5 LOW]"
    by (simp add: copyScratchpad_def readPowerSupply_events strongPullup_eq bus_simps
        power_events_def pullup_events_def Let_def wired_driver_def bench_def)
  then show ?thesis by simp
qed

subsection \<open>Discovery\<close>

lemma unat_max_devices: "unat DS18B20_MAX_DEVICES = 16"
  by (simp add: DS18B20_MAX_DEVICES_def)

lemma unat_inc: "d < DS18B20_MAX_DEVICES \<Longrightarrow> unat (d + 1) = Suc (unat d)"
  by (simp add: word_less_nat_alt unat_max_devices unat_word_ariths)

declare search_loop.simps [simp del]

lemma search_loop_registry:
  "unat (devices self) \<le> 16 \<Longrightarrow> length (addresses self) = 16 \<Longrightarrow>
   search_loop self h = (self', h') \<Longrightarrow>
   take (unat (devices self')) (addresses self')
     = take 16 (take (unat (devices self)) (addresses self)
                @ filter rom_ok (drop (cursor h) (roms h)))
   \<and> unat (devices self') \<le> 16 \<and> length (addresses self') = 16
   \<and> strongPullupPin self' = strongPullupPin self \<and> dataPin self' = dataPin self
   \<and> rx h' = rx h \<and> pos h' = pos h"
proof (induction self h arbitrary: self' h' rule: search_loop.induct)
  case (1 self h)
  show ?case
  proof (cases "cursor h < length (roms h)")
    case False
    with "1.prems" show ?thesis
      by (auto simp add: search_loop.simps [of self h] ow_search_def emit_def)
  next
    case True
    let ?a = "roms h ! cursor h"
    let ?h1 = "emit (Search True) (h\<lparr>cursor := Suc (cursor h)\<rparr>)"
    have s: "ow_search h = (Some ?a, ?h1)"
      using True by (simp add: ow_search_def)
    have dr: "drop (cursor h) (roms h) = ?a # drop (Suc (cursor h)) (roms h)"
      using True by (simp add: Cons_nth_drop_Suc)
    show ?thesis
    proof (cases "devices self < DS18B20_MAX_DEVICES")
      case False
      then have "unat (devices self) = 16"
        using "1.prems"(1) by (simp add: word_less_nat_alt unat_max_devices)
      with False s "1.prems" show ?thesis
        by (auto simp add: search_loop.simps [of self h] emit_def)
    next
      case lt: True
      then have dlt: "unat (devices self) < 16"
        by (simp add: word_less_nat_alt unat_max_devices)
      let ?self1 = "self\<lparr>addresses := (addresses self)[unat (devices self) := ?a]\<rparr>"
      show ?thesis
      proof (cases "crc8 ?a 7 \<noteq> ?a ! 7")
        case True
        have run: "search_loop ?self1 ?h1 = (self', h')"
          using "1.prems"(3) s lt True by (simp add: search_loop.simps [of self h] Let_def)
        have "\<not> rom_ok ?a" using True by (simp add: rom_ok_def)
        with "1.IH"(1) [OF s [symmetric] refl lt refl True _ _ run] "1.prems"(1,2) dr
        show ?thesis by (simp add: emit_def)
      next
        case False
        have run: "search_loop (?self1\<lparr>devices := devices ?self1 + 1\<rparr>) ?h1 = (self', h')"
          using "1.prems"(3) s lt False by (simp add: search_loop.simps [of self h] Let_def)
        have ok: "rom_ok ?a" using False by (simp add: rom_ok_def)
        have tk: "take (Suc (unat (devices self))) ((addresses self)[unat (devices self) := ?a])
                   = take (unat (devices self)) (addresses self) @ [?a]"
          using dlt "1.prems"(2) by (simp add: take_Suc_conv_app_nth)
        from "1.IH"(2) [OF s [symmetric] refl lt refl False _ _ run] "1.prems"(1,2) dr ok tk dlt
        show ?thesis by (simp add: emit_def unat_inc [OF lt])
      qed
    qed
  qed
qed


lemma word_of_unat: "unat (n::u8) = k \<Longrightarrow> n = of_nat k"
  by auto

lemma searchDevices_registry:
  assumes "length (addresses self) = 16"
    and "searchDevices self h = (n, self', h')"
  shows "n = devices self'
     \<and> take (unat n) (addresses self') = take 16 (filter rom_ok (roms h))
     \<and> unat n = min 16 (length (filter rom_ok (roms h)))
     \<and> strongPullupPin self' = strongPullupPin self \<and> dataPin self' = dataPin self
     \<and> rx h' = rx h \<and> pos h' = pos h"
proof -
  let ?self1 = "self\<lparr>devices := 0\<rparr>"
  let ?h1 = "ow_reset_search h"
  obtain self2 h2 where run: "search_loop ?self1 ?h1 = (self2, h2)"
    by (cases "search_loop ?self1 ?h1")
  with assms(2) have res: "n = devices self2" "self' = self2" "h' = ow_reset_search h2"
    by (auto simp add: searchDevices_def Let_def)
  have inv: "take (unat (devices self2)) (addresses self2) = take 16 (filter rom_ok (roms h))
      \<and> unat (devices self2) \<le> 16 \<and> length (addresses self2) = 16
      \<and> strongPullupPin self2 = strongPullupPin self \<and> dataPin self2 = dataPin self
      \<and> rx h2 = rx h \<and> pos h2 = pos h"
    using search_loop_registry [OF _ _ run] assms(1)
    by (simp add: ow_reset_search_def emit_def)
  then have "length (take (unat (devices self2)) (addresses self2))
            = length (take 16 (filter rom_ok (roms h)))"
    by (simp only:)
  moreover from inv have "unat (devices self2) \<le> 16" and "length (addresses self2) = 16"
    by blast+
  then have "length (take (unat (devices self2)) (addresses self2)) = unat (devices self2)"
    by simp
  ultimately have "unat (devices self2) = min 16 (length (filter rom_ok (roms h)))"
    by (simp add: min.commute)
  with inv res show ?thesis
    by (simp add: ow_reset_search_def emit_def)
qed

lemma rom_ok_tag: "rom_ok (tag s c) = (crc8_bytes 0 [0x28, s, 0, 0, 0, 0, 0] = c)"
  by (simp add: rom_ok_def tag_def crc8_def)

lemma crowd_members_ok:
  "rom_ok (tag 1 41)" "rom_ok (tag 2 112)" "rom_ok (tag 3 71)" "rom_ok (tag 4 194)"
  "rom_ok (tag 5 245)" "rom_ok (tag 6 172)" "rom_ok (tag 7 155)" "rom_ok (tag 8 191)"
  "rom_ok (tag 9 136)" "rom_ok (tag 10 209)" "rom_ok (tag 11 230)" "rom_ok (tag 12 99)"
  "rom_ok (tag 13 84)" "rom_ok (tag 14 13)" "rom_ok (tag 15 58)" "rom_ok (tag 16 69)"
  "rom_ok (tag 17 114)"
  unfolding rom_ok_tag by code_simp+

lemma crowd_ok: "filter rom_ok crowd = crowd"
  by (simp add: crowd_def crowd_members_ok)

text \<open>
  Claim C2, as the code has it.  The registry after \<open>searchDevices\<close> (the first
  \<open>_devices\<close> entries of the table, which is all that \<open>getAddress\<close> hands out) holds, in
  the order of the search, the candidates whose checksum over the first seven bytes
  equals the eighth, up to the capacity of 16: a candidate is accepted if and only if
  its checksum matches and fewer than 16 matching candidates came before it.  The
  returned count is the number of accepted candidates; candidates with a wrong checksum
  leave no trace in the registry, and the other fields of the driver stay as they were.
\<close>

theorem searchDevices_accepts:
  assumes "length (addresses self) = 16"
  shows "take (unat (fst (searchDevices self h))) (addresses (fst (snd (searchDevices self h))))
           = take 16 (filter rom_ok (roms h))
     \<and> unat (fst (searchDevices self h)) = min 16 (length (filter rom_ok (roms h)))
     \<and> devices (fst (snd (searchDevices self h))) = fst (searchDevices self h)
     \<and> (\<forall>i. getAddress (fst (snd (searchDevices self h))) i
            = (if unat i < min 16 (length (filter rom_ok (roms h)))
               then Some (filter rom_ok (roms h) ! unat i) else None))
     \<and> strongPullupPin (fst (snd (searchDevices self h))) = strongPullupPin self
     \<and> dataPin (fst (snd (searchDevices self h))) = dataPin self"
proof -
  let ?valid = "filter rom_ok (roms h)"
  obtain n self' h' where run: "searchDevices self h = (n, self', h')"
    by (cases "searchDevices self h")
  from searchDevices_registry [OF assms run]
  have reg: "take (unat n) (addresses self') = take 16 ?valid"
    and cnt: "unat n = min 16 (length ?valid)"
    and dev: "devices self' = n"
    and pins: "strongPullupPin self' = strongPullupPin self" "dataPin self' = dataPin self"
    by blast+
  have "getAddress self' i
          = (if unat i < min 16 (length ?valid) then Some (?valid ! unat i) else None)" for i
  proof (cases "unat i < unat n")
    case True
    then have "addresses self' ! unat i = take (unat n) (addresses self') ! unat i"
      by simp
    also have "\<dots> = ?valid ! unat i"
      using True cnt unfolding reg by simp
    finally have "addresses self' ! unat i = ?valid ! unat i" .
    moreover have "\<not> devices self' \<le> i"
      using True dev by (simp add: word_le_nat_alt)
    moreover have "unat i < min 16 (length ?valid)"
      using True cnt by simp
    ultimately show ?thesis
      by (simp only: getAddress_def if_True if_False)
  next
    case False
    then have "devices self' \<le> i"
      using dev by (simp add: word_le_nat_alt)
    moreover have "\<not> unat i < min 16 (length ?valid)"
      using False cnt by simp
    ultimately show ?thesis
      by (simp only: getAddress_def if_True if_False)
  qed
  with reg cnt dev pins show ?thesis
    unfolding run fst_conv snd_conv by blast
qed

text \<open>Of three candidates the second has a wrong checksum: two are accepted.\<close>

theorem searchDevices_accepts_witness:
  "length (addresses plain_driver) = 16
   \<and> fst (searchDevices plain_driver (bench [] [tag 1 41, tag 2 0, tag 3 71])) = 2
   \<and> take 2 (addresses (fst (snd (searchDevices plain_driver
         (bench [] [tag 1 41, tag 2 0, tag 3 71]))))) = [tag 1 41, tag 3 71]"
proof -
  let ?h = "bench [] [tag 1 41, tag 2 0, tag 3 71]"
  have len: "length (addresses plain_driver) = 16"
    by (simp add: plain_driver_def)
  have "rom_ok (tag 1 41)" "\<not> rom_ok (tag 2 0)" "rom_ok (tag 3 71)"
    unfolding rom_ok_tag by code_simp+
  then have valid: "filter rom_ok (roms ?h) = [tag 1 41, tag 3 71]"
    by (simp add: bench_def)
  from searchDevices_accepts [OF len, of ?h]
  have reg: "take (unat (fst (searchDevices plain_driver ?h)))
          (addresses (fst (snd (searchDevices plain_driver ?h))))
            = take 16 (filter rom_ok (roms ?h))"
    and cnt: "unat (fst (searchDevices plain_driver ?h))
            = min 16 (length (filter rom_ok (roms ?h)))"
    by blast+
  have count: "unat (fst (searchDevices plain_driver ?h)) = 2"
    unfolding cnt valid by simp
  have "take 2 (addresses (fst (snd (searchDevices plain_driver ?h)))) = [tag 1 41, tag 3 71]"
    using reg unfolding count valid by simp
  moreover have "fst (searchDevices plain_driver ?h) = 2"
    using word_of_unat [OF count] by simp
  ultimately show ?thesis using len by simp
qed

text \<open>
  Claim C2 as stated fails: with seventeen candidates that all carry a matching
  checksum, the search returns the seventeenth, but it is not accepted; the count is 16.
\<close>

theorem searchDevices_drops_seventeenth:
  "rom_ok (crowd ! 16)
   \<and> fst (searchDevices plain_driver (bench [] crowd)) = 16
   \<and> crowd ! 16 \<notin> set (take 16 (addresses (fst (snd (searchDevices plain_driver (bench [] crowd))))))"
proof -
  let ?h = "bench [] crowd"
  obtain n self' h' where run: "searchDevices plain_driver ?h = (n, self', h')"
    by (cases "searchDevices plain_driver ?h")
  have len: "length (addresses plain_driver) = 16"
    by (simp add: plain_driver_def)
  have roms: "filter rom_ok (roms ?h) = crowd"
    using crowd_ok by (simp add: bench_def)
  have "length crowd = 17"
    by (simp add: crowd_def)
  moreover from searchDevices_registry [OF len run]
  have "unat n = min 16 (length crowd)" and reg: "take (unat n) (addresses self') = take 16 crowd"
    unfolding roms by blast+
  ultimately have count: "unat n = 16"
    by simp
  have n: "n = 16"
    using word_of_unat [OF count] by simp
  have last: "rom_ok (crowd ! 16)"
    by (simp add: crowd_def crowd_members_ok)
  have "crowd ! 16 \<notin> set (take 16 crowd)"
    by (simp add: crowd_def tag_def)
  with reg n last run show ?thesis by simp
qed

subsection \<open>Writing the scratchpad\<close>

lemma sint_i8: "- 128 \<le> x \<Longrightarrow> x \<le> 127 \<Longrightarrow> sint (word_of_int x :: u8) = x"
  by (simp add: int_word_sint)

lemma writeScratchpad_eq:
  "writeScratchpad addr th tl' config h =
     (crc8 (line_bytes h 0 9) 8 = line_bytes h 0 9 ! 8
      \<and> line_bytes h 0 9 ! 2 = word_of_int th \<and> line_bytes h 0 9 ! 3 = word_of_int tl'
      \<and> line_bytes h 0 9 ! 4 = config,
      advance h 9 (write_events addr (word_of_int th) (word_of_int tl') config
                   @ scratch_events addr (line_bytes h 0 9)))"
  by (auto simp add: writeScratchpad_def readScratchpad_events bus_simps write_events_def Let_def
      simp del: nth_line_bytes)

lemma payload_reads [simp]: "written_payload acc (map Read bs @ es) = written_payload acc es"
  by (induction bs) simp_all

lemma payload_scratch [simp]:
  "written_payload acc (scratch_events addr sp @ es) = written_payload acc es"
  by (simp add: scratch_events_def)

lemma payload_scratch_end [simp]: "written_payload acc (scratch_events addr sp) = acc"
  using payload_scratch [of acc addr sp "[]"] by simp

lemma payload_write [simp]:
  "written_payload acc (write_events addr a b c @ es) = written_payload [a, b, c] es"
  by (simp add: write_events_def numeral_3_eq_3)

lemma payload_power [simp]:
  "written_payload acc (power_events addr v @ es) = written_payload acc es"
  by (simp add: power_events_def)

lemma payload_pullup [simp]:
  "written_payload acc (pullup_events self l @ es) = written_payload acc es"
  by (simp add: pullup_events_def)

lemma u8_inside: "(r::u8) \<in> {9, 10, 11, 12} \<Longrightarrow> \<not> (r < 9 \<or> r > 12)"
  by auto

lemma setResolution_eq:
  assumes "resolution \<in> {9, 10, 11, 12}"
    and "crc8 (line_bytes h 0 9) 8 = line_bytes h 0 9 ! 8"
  shows "setResolution self addr resolution False h =
     (crc8 (line_bytes h 9 9) 8 = line_bytes h 9 9 ! 8
      \<and> line_bytes h 9 9 ! 2 = line_bytes h 0 9 ! 2
      \<and> line_bytes h 9 9 ! 3 = line_bytes h 0 9 ! 3
      \<and> line_bytes h 9 9 ! 4 = config_byte resolution,
      advance h 18 (scratch_events addr (line_bytes h 0 9)
        @ write_events addr (line_bytes h 0 9 ! 2) (line_bytes h 0 9 ! 3) (config_byte resolution)
        @ scratch_events addr (line_bytes h 9 9)))"
proof -
  have cfg: "(if resolution = 9 then 0x00
      else if resolution = 10 then 0x20
      else if resolution = 11 then 0x40
      else if resolution = 12 then 0x60
      else 0) OR 0x1F = config_byte resolution"
    by (simp only: config_byte_def)
  show ?thesis
    unfolding setResolution_def
    using u8_inside [OF assms(1)] assms(2)
    by (simp only: if_False Let_def readScratchpad_events writeScratchpad_eq cfg split_conv
          line_bytes_advance advance_advance)
       (auto simp del: nth_line_bytes)
qed

lemma decode_config:
  "resolution \<in> {9, 10, 11, 12} \<Longrightarrow> crc8 sp 8 = sp ! 8 \<Longrightarrow> sp ! 4 = config_byte resolution
   \<Longrightarrow> decode_resolution sp = resolution"
  by (auto simp add: decode_resolution_def config_byte_def)

lemma ten_bit_line_bytes:
  "line_bytes (bench ten_bit_line []) 0 9 = power_on_scratchpad"
  "line_bytes (bench ten_bit_line []) 9 9 = ten_bit_scratchpad"
  "line_bytes (bench ten_bit_line []) 18 9 = ten_bit_scratchpad"
  by (simp_all add: line_bytes_bench_drop ten_bit_line_def power_on_scratchpad_def
      ten_bit_scratchpad_def)

lemma power_on_crc: "crc8 power_on_scratchpad 8 = power_on_scratchpad ! 8"
  unfolding power_on_scratchpad_def by code_simp

lemma ten_bit_crc: "crc8 ten_bit_scratchpad 8 = ten_bit_scratchpad ! 8"
  unfolding ten_bit_scratchpad_def by code_simp

lemma copyScratchpad_eq:
  "copyScratchpad self addr h = (True, advance h 1 (copy_events self addr (rx h (pos h))))"
  by (simp add: copyScratchpad_def readPowerSupply_events strongPullup_eq bus_simps
      copy_events_def Let_def)

lemma payload_copy [simp]:
  "written_payload acc (copy_events self addr v @ es) = written_payload acc es"
  by (simp add: copy_events_def)

lemma payload_copy_end [simp]: "written_payload acc (copy_events self addr v) = acc"
  using payload_copy [of acc self addr v "[]"] by simp

lemma getAlarms_eq:
  "getAlarms addr h =
     (if crc8 (line_bytes h 0 9) 8 = line_bytes h 0 9 ! 8
      then Some (sint (line_bytes h 0 9 ! 2), sint (line_bytes h 0 9 ! 3)) else None,
      advance h 9 (scratch_events addr (line_bytes h 0 9)))"
  by (simp add: getAlarms_def readScratchpad_events Let_def del: nth_line_bytes)

lemma setAlarms_eq:
  assumes "crc8 (line_bytes h 0 9) 8 = line_bytes h 0 9 ! 8"
  shows "setAlarms self addr th tl' persistToEeprom h =
     (let written = (crc8 (line_bytes h 9 9) 8 = line_bytes h 9 9 ! 8
            \<and> line_bytes h 9 9 ! 2 = word_of_int th
            \<and> line_bytes h 9 9 ! 3 = word_of_int tl'
            \<and> line_bytes h 9 9 ! 4 = line_bytes h 0 9 ! 4);
          base = scratch_events addr (line_bytes h 0 9)
            @ write_events addr (word_of_int th) (word_of_int tl') (line_bytes h 0 9 ! 4)
            @ scratch_events addr (line_bytes h 9 9)
      in if written \<and> persistToEeprom
         then (True, advance h 19 (base @ copy_events self addr (rx h (pos h + 18))))
         else (written, advance h 18 base))"
  unfolding setAlarms_def
  using assms
  by (simp only: Let_def readScratchpad_events writeScratchpad_eq split_conv
          line_bytes_advance advance_advance copyScratchpad_eq)
     (auto simp del: nth_line_bytes)

lemma setAlarms_written:
  assumes "crc8 (line_bytes h 0 9) 8 = line_bytes h 0 9 ! 8"
  shows "last_written (new_events h (snd (setAlarms self addr th tl' persistToEeprom h)))
     = [word_of_int th, word_of_int tl', line_bytes h 0 9 ! 4]"
  unfolding setAlarms_eq [OF assms] last_written_def Let_def
  by (simp del: nth_line_bytes)

lemma alarm_line_bytes:
  "line_bytes (bench alarm_line []) 0 9 = power_on_scratchpad"
  "line_bytes (bench alarm_line []) 9 9 = alarm_scratchpad"
  "line_bytes (bench alarm_line []) 18 9 = alarm_scratchpad"
  by (simp_all add: line_bytes_bench_drop alarm_line_def power_on_scratchpad_def
      alarm_scratchpad_def)

lemma alarm_crc: "crc8 alarm_scratchpad 8 = alarm_scratchpad ! 8"
  unfolding alarm_scratchpad_def by code_simp

lemma config_byte_value:
  "resolution \<in> {9, 10, 11, 12} \<Longrightarrow>
   config_byte resolution
     = (if resolution = 9 then 0x1F else if resolution = 10 then 0x3F
        else if resolution = 11 then 0x5F else 0x7F)"
  by (auto simp add: config_byte_def)

lemma alarm_copy_line_bytes:
  "line_bytes (bench alarm_copy_line []) 0 9 = power_on_scratchpad"
  "line_bytes (bench alarm_copy_line []) 9 9 = alarm_scratchpad"
  "line_bytes (bench alarm_copy_line []) 19 9 = alarm_scratchpad"
  by (simp_all add: line_bytes_bench_drop alarm_copy_line_def power_on_scratchpad_def
      alarm_scratchpad_def)

subsection \<open>Round trip of the resolution\<close>

text \<open>
  Claim C4.  Let the resolution be one of 9, 10, 11 and 12, call \<open>setResolution\<close> without
  persisting, and let its first read (bytes 0 to 8 of the line) pass the checksum.  Then
  the call does exactly this: it reads the scratchpad, writes the two thresholds it has
  just read together with the configuration byte of the resolution (\<open>0x1F\<close>, \<open>0x3F\<close>,
  \<open>0x5F\<close>, \<open>0x7F\<close>), and reads back (bytes 9 to 17); it returns true if and only if the
  read-back echoes that write faithfully.  If moreover the next read, the one of
  \<open>getResolution\<close>, echoes the write faithfully, then \<open>getResolution\<close> returns the
  resolution that was set.
\<close>

theorem setResolution_getResolution_roundtrip:
  assumes "resolution \<in> {9, 10, 11, 12}"
    and "setResolution self addr resolution False h = (ok, h1)"
    and "crc8 (line_bytes h 0 9) 8 = line_bytes h 0 9 ! 8"
  shows "(let config = (if resolution = 9 then 0x1F else if resolution = 10 then 0x3F
                        else if resolution = 11 then 0x5F else 0x7F)
          in h1 = advance h 18
                    (scratch_events addr (line_bytes h 0 9)
                     @ write_events addr (line_bytes h 0 9 ! 2) (line_bytes h 0 9 ! 3) config
                     @ scratch_events addr (line_bytes h 9 9))
             \<and> last_written (new_events h h1)
                 = [line_bytes h 0 9 ! 2, line_bytes h 0 9 ! 3, config])
     \<and> (ok \<longleftrightarrow> echoes (new_events h h1) (line_bytes h 9 9))
     \<and> (echoes (new_events h h1) (line_bytes h 9 9)
          \<and> echoes (new_events h h1) (line_bytes h1 0 9)
          \<longrightarrow> ok \<and> fst (getResolution addr h1) = resolution)"
proof -
  let ?sp1 = "line_bytes h 0 9"
  let ?sp2 = "line_bytes h 9 9"
  let ?sp3 = "line_bytes h1 0 9"
  let ?config = "if resolution = 9 then 0x1F else if resolution = 10 then 0x3F
                        else if resolution = 11 then 0x5F else (0x7F :: u8)"
  have cfg: "config_byte resolution = ?config"
    using assms(1) by (rule config_byte_value)
  note run = setResolution_eq [OF assms(1,3), of self addr]
  from assms(2) run
  have h1: "h1 = advance h 18 (scratch_events addr ?sp1
        @ write_events addr (?sp1 ! 2) (?sp1 ! 3) (config_byte resolution)
        @ scratch_events addr ?sp2)"
    and ok: "ok = (crc8 ?sp2 8 = ?sp2 ! 8 \<and> ?sp2 ! 2 = ?sp1 ! 2 \<and> ?sp2 ! 3 = ?sp1 ! 3
        \<and> ?sp2 ! 4 = config_byte resolution)"
    by simp_all
  have written: "last_written (new_events h h1) = [?sp1 ! 2, ?sp1 ! 3, config_byte resolution]"
    unfolding h1 last_written_def new_events_advance by simp
  have verified: "ok \<longleftrightarrow> echoes (new_events h h1) ?sp2"
    unfolding ok echoes_def written by auto
  have again: "fst (getResolution addr h1) = resolution" if "echoes (new_events h h1) ?sp3"
  proof -
    from that have "crc8 ?sp3 8 = ?sp3 ! 8" and "?sp3 ! 4 = config_byte resolution"
      unfolding echoes_def written by simp_all
    then have "decode_resolution ?sp3 = resolution"
      using assms(1) by (intro decode_config)
    then show ?thesis by (simp add: getResolution_eq)
  qed
  from h1 written have "h1 = advance h 18 (scratch_events addr ?sp1
        @ write_events addr (?sp1 ! 2) (?sp1 ! 3) ?config @ scratch_events addr ?sp2)
      \<and> last_written (new_events h h1) = [?sp1 ! 2, ?sp1 ! 3, ?config]"
    unfolding cfg by blast
  with verified again show ?thesis
    unfolding Let_def by blast
qed

text \<open>
  Setting 10 bits on a sensor that powers up with 12: the thresholds \<open>0x4B\<close> and \<open>0x46\<close>
  are written back with the configuration \<open>0x3F\<close>, and 10 is read afterwards.
\<close>

theorem setResolution_getResolution_roundtrip_witness:
  "(10::u8) \<in> {9, 10, 11, 12}
   \<and> fst (setResolution plain_driver sensor 10 False (bench ten_bit_line []))
   \<and> last_written (new_events (bench ten_bit_line [])
        (snd (setResolution plain_driver sensor 10 False (bench ten_bit_line []))))
       = [0x4B, 0x46, 0x3F]
   \<and> fst (getResolution sensor
        (snd (setResolution plain_driver sensor 10 False (bench ten_bit_line [])))) = 10"
proof -
  let ?h = "bench ten_bit_line []"
  let ?r = "setResolution plain_driver sensor 10 False ?h"
  have a1: "(10::u8) \<in> {9, 10, 11, 12}" by simp
  have a2: "?r = (fst ?r, snd ?r)" by simp
  have a3: "crc8 (line_bytes ?h 0 9) 8 = line_bytes ?h 0 9 ! 8"
    unfolding ten_bit_line_bytes by (rule power_on_crc)
  have cfg: "(if (10::u8) = 9 then 0x1F else if (10::u8) = 10 then 0x3F
      else if (10::u8) = 11 then 0x5F else 0x7F) = (0x3F::u8)"
    by simp
  note inst = setResolution_getResolution_roundtrip [OF a1 a2 a3, unfolded Let_def cfg]
  from inst have "last_written (new_events ?h (snd ?r))
      = [line_bytes ?h 0 9 ! 2, line_bytes ?h 0 9 ! 3, 0x3F]"
    by blast
  then have written: "last_written (new_events ?h (snd ?r)) = [0x4B, 0x46, 0x3F]"
    unfolding ten_bit_line_bytes by (simp add: power_on_scratchpad_def)
  have a4: "echoes (new_events ?h (snd ?r)) (line_bytes ?h 9 9)"
    unfolding written echoes_def ten_bit_line_bytes
    using ten_bit_crc by (simp add: ten_bit_scratchpad_def)
  from inst have "snd ?r = advance ?h 18
        (scratch_events sensor (line_bytes ?h 0 9)
         @ write_events sensor (line_bytes ?h 0 9 ! 2) (line_bytes ?h 0 9 ! 3) 0x3F
         @ scratch_events sensor (line_bytes ?h 9 9))"
    by blast
  then have "line_bytes (snd ?r) 0 9 = line_bytes ?h 18 9"
    by (simp only: line_bytes_advance) simp
  then have a5: "echoes (new_events ?h (snd ?r)) (line_bytes (snd ?r) 0 9)"
    unfolding written echoes_def ten_bit_line_bytes
    using ten_bit_crc by (simp add: ten_bit_scratchpad_def)
  from inst a4 a5 have "fst ?r \<and> fst (getResolution sensor (snd ?r)) = 10"
    by blast
  with a1 written show ?thesis by simp
qed

subsection \<open>Round trip of the alarm thresholds\<close>

text \<open>
  Claim C5.  Let \<open>th\<close> and \<open>tl\<close> be signed 8-bit values and let the first read of
  \<open>setAlarms\<close> pass the checksum.  Then the call does exactly this: it reads the
  scratchpad, writes the bytes of \<open>th\<close> and \<open>tl\<close> (whose signed reading is \<open>th\<close> and \<open>tl\<close>
  again) together with the configuration byte it has just read, reads back, and, when
  asked to persist and the read-back matched, copies to the EEPROM; it returns true if
  and only if the read-back echoes that write faithfully.  If moreover the next read
  echoes the write faithfully, then \<open>getAlarms\<close> returns \<open>th\<close> and \<open>tl\<close> unchanged and the
  resolution is what it was before.
\<close>

theorem setAlarms_getAlarms_roundtrip:
  assumes "- 128 \<le> th \<and> th \<le> 127" and "- 128 \<le> tl' \<and> tl' \<le> 127"
    and "setAlarms self addr th tl' persistToEeprom h = (ok, h1)"
    and "crc8 (line_bytes h 0 9) 8 = line_bytes h 0 9 ! 8"
  shows "h1 = (let base = scratch_events addr (line_bytes h 0 9)
                    @ write_events addr (word_of_int th) (word_of_int tl') (line_bytes h 0 9 ! 4)
                    @ scratch_events addr (line_bytes h 9 9)
               in if ok \<and> persistToEeprom
                  then advance h 19 (base @ copy_events self addr (rx h (pos h + 18)))
                  else advance h 18 base)
     \<and> last_written (new_events h h1)
         = [word_of_int th, word_of_int tl', line_bytes h 0 9 ! 4]
     \<and> sint (word_of_int th :: u8) = th \<and> sint (word_of_int tl' :: u8) = tl'
     \<and> (ok \<longleftrightarrow> echoes (new_events h h1) (line_bytes h 9 9))
     \<and> (echoes (new_events h h1) (line_bytes h 9 9)
          \<and> echoes (new_events h h1) (line_bytes h1 0 9)
          \<longrightarrow> ok \<and> fst (getAlarms addr h1) = Some (th, tl')
              \<and> fst (getResolution addr h1) = fst (getResolution addr h))"
proof -
  let ?sp1 = "line_bytes h 0 9"
  let ?sp2 = "line_bytes h 9 9"
  let ?sp3 = "line_bytes h1 0 9"
  let ?base = "scratch_events addr ?sp1
      @ write_events addr (word_of_int th) (word_of_int tl') (?sp1 ! 4)
      @ scratch_events addr ?sp2"
  let ?written = "crc8 ?sp2 8 = ?sp2 ! 8 \<and> ?sp2 ! 2 = word_of_int th
      \<and> ?sp2 ! 3 = word_of_int tl' \<and> ?sp2 ! 4 = ?sp1 ! 4"
  have signed: "sint (word_of_int th :: u8) = th" "sint (word_of_int tl' :: u8) = tl'"
    using assms(1,2) by (simp_all add: sint_i8)
  from assms(3) have ok: "ok = ?written"
    and h1: "h1 = (if ok \<and> persistToEeprom
        then advance h 19 (?base @ copy_events self addr (rx h (pos h + 18)))
        else advance h 18 ?base)"
    unfolding setAlarms_eq [OF assms(4)] Let_def by (auto split: if_splits)
  have written: "last_written (new_events h h1) = [word_of_int th, word_of_int tl', ?sp1 ! 4]"
    using setAlarms_written [OF assms(4), of self addr th tl' persistToEeprom] assms(3)
    by simp
  have verified: "ok \<longleftrightarrow> echoes (new_events h h1) ?sp2"
    unfolding ok echoes_def written by auto
  have again: "fst (getAlarms addr h1) = Some (th, tl')
      \<and> fst (getResolution addr h1) = fst (getResolution addr h)" if "echoes (new_events h h1) ?sp3"
  proof -
    from that have echo3: "crc8 ?sp3 8 = ?sp3 ! 8" "?sp3 ! 2 = word_of_int th"
        "?sp3 ! 3 = word_of_int tl'" "?sp3 ! 4 = ?sp1 ! 4"
      unfolding echoes_def written by simp_all
    then have "fst (getAlarms addr h1) = Some (th, tl')"
      using signed by (simp add: getAlarms_eq del: nth_line_bytes)
    moreover have "decode_resolution ?sp3 = decode_resolution ?sp1"
      using echo3 assms(4) by (simp add: decode_resolution_def del: nth_line_bytes)
    then have "fst (getResolution addr h1) = fst (getResolution addr h)"
      by (simp add: getResolution_eq)
    ultimately show ?thesis by simp
  qed
  from h1 have "h1 = (let base = ?base
               in if ok \<and> persistToEeprom
                  then advance h 19 (base @ copy_events self addr (rx h (pos h + 18)))
                  else advance h 18 base)"
    unfolding Let_def .
  with written signed verified again show ?thesis
    by blast
qed

text \<open>
  The boundary values \<open>th\<close> = -128 and \<open>tl\<close> = 127, without persisting and, on a driver
  with a pull-up pin, with persisting.
\<close>

theorem setAlarms_getAlarms_roundtrip_witness:
  "(- 128 \<le> (- 128::int) \<and> (- 128::int) \<le> 127) \<and> (- 128 \<le> (127::int) \<and> (127::int) \<le> 127)
   \<and> fst (setAlarms plain_driver sensor (- 128) 127 False (bench alarm_line []))
   \<and> fst (getAlarms sensor
        (snd (setAlarms plain_driver sensor (- 128) 127 False (bench alarm_line []))))
       = Some (- 128, 127)
   \<and> fst (setAlarms wired_driver sensor (- 128) 127 True (bench alarm_copy_line []))
   \<and> fst (getAlarms sensor
        (snd (setAlarms wired_driver sensor (- 128) 127 True (bench alarm_copy_line []))))
       = Some (- 128, 127)"
proof -
  have a1: "- 128 \<le> (- 128::int) \<and> (- 128::int) \<le> 127" by simp
  have a2: "- 128 \<le> (127::int) \<and> (127::int) \<le> 127" by simp
  have plain: "fst (setAlarms plain_driver sensor (- 128) 127 False (bench alarm_line []))
   \<and> fst (getAlarms sensor
        (snd (setAlarms plain_driver sensor (- 128) 127 False (bench alarm_line []))))
       = Some (- 128, 127)"
  proof -
    let ?h = "bench alarm_line []"
    let ?r = "setAlarms plain_driver sensor (- 128) 127 False ?h"
    have a3: "?r = (fst ?r, snd ?r)" by simp
    have a4: "crc8 (line_bytes ?h 0 9) 8 = line_bytes ?h 0 9 ! 8"
      unfolding alarm_line_bytes by (rule power_on_crc)
    note inst = setAlarms_getAlarms_roundtrip [OF a1 a2 a3 a4, unfolded Let_def]
    from inst have "last_written (new_events ?h (snd ?r))
        = [word_of_int (- 128), word_of_int 127, line_bytes ?h 0 9 ! 4]"
      by blast
    then have written: "last_written (new_events ?h (snd ?r)) = [0x80, 0x7F, 0x7F]"
      unfolding alarm_line_bytes by (simp add: power_on_scratchpad_def)
    have a5: "echoes (new_events ?h (snd ?r)) (line_bytes ?h 9 9)"
      unfolding written echoes_def alarm_line_bytes
      using alarm_crc by (simp add: alarm_scratchpad_def)
    from inst have "snd ?r = (if fst ?r \<and> False
        then advance ?h 19 ((scratch_events sensor (line_bytes ?h 0 9)
            @ write_events sensor (word_of_int (- 128)) (word_of_int 127) (line_bytes ?h 0 9 ! 4)
            @ scratch_events sensor (line_bytes ?h 9 9))
            @ copy_events plain_driver sensor (rx ?h (pos ?h + 18)))
        else advance ?h 18 (scratch_events sensor (line_bytes ?h 0 9)
            @ write_events sensor (word_of_int (- 128)) (word_of_int 127) (line_bytes ?h 0 9 ! 4)
            @ scratch_events sensor (line_bytes ?h 9 9)))"
      by blast
    then have "pos (snd ?r) = pos ?h + 18" and "rx (snd ?r) = rx ?h"
      by simp_all
    then have "line_bytes (snd ?r) 0 9 = line_bytes ?h 18 9"
      by (simp add: line_bytes_def)
    then have a6: "echoes (new_events ?h (snd ?r)) (line_bytes (snd ?r) 0 9)"
      unfolding written echoes_def alarm_line_bytes
      using alarm_crc by (simp add: alarm_scratchpad_def)
    from inst a5 a6 show ?thesis by blast
  qed
  have wired: "fst (setAlarms wired_driver sensor (- 128) 127 True (bench alarm_copy_line []))
   \<and> fst (getAlarms sensor
        (snd (setAlarms wired_driver sensor (- 128) 127 True (bench alarm_copy_line []))))
       = Some (- 128, 127)"
  proof -
    let ?h = "bench alarm_copy_line []"
    let ?r = "setAlarms wired_driver sensor (- 128) 127 True ?h"
    have a3: "?r = (fst ?r, snd ?r)" by simp
    have a4: "crc8 (line_bytes ?h 0 9) 8 = line_bytes ?h 0 9 ! 8"
      unfolding alarm_copy_line_bytes by (rule power_on_crc)
    note inst = setAlarms_getAlarms_roundtrip [OF a1 a2 a3 a4, unfolded Let_def]
    from inst have "last_written (new_events ?h (snd ?r))
        = [word_of_int (- 128), word_of_int 127, line_bytes ?h 0 9 ! 4]"
      by blast
    then have written: "last_written (new_events ?h (snd ?r)) = [0x80, 0x7F, 0x7F]"
      unfolding alarm_copy_line_bytes by (simp add: power_on_scratchpad_def)
    have a5: "echoes (new_events ?h (snd ?r)) (line_bytes ?h 9 9)"
      unfolding written echoes_def alarm_copy_line_bytes
      using alarm_crc by (simp add: alarm_scratchpad_def)
    with inst have ok: "fst ?r" by blast
    from inst have "snd ?r = (if fst ?r \<and> True
        then advance ?h 19 ((scratch_events sensor (line_bytes ?h 0 9)
            @ write_events sensor (word_of_int (- 128)) (word_of_int 127) (line_bytes ?h 0 9 ! 4)
            @ scratch_events sensor (line_bytes ?h 9 9))
            @ copy_events wired_driver sensor (rx ?h (pos ?h + 18)))
        else advance ?h 18 (scratch_events sensor (line_bytes ?h 0 9)
            @ write_events sensor (word_of_int (- 128)) (word_of_int 127) (line_bytes ?h 0 9 ! 4)
            @ scratch_events sensor (line_bytes ?h 9 9)))"
      by blast
    with ok have "pos (snd ?r) = pos ?h + 19" and "rx (snd ?r) = rx ?h"
      by simp_all
    then have "line_bytes (snd ?r) 0 9 = line_bytes ?h 19 9"
      by (simp add: line_bytes_def)
    then have a6: "echoes (new_events ?h (snd ?r)) (line_bytes (snd ?r) 0 9)"
      unfolding written echoes_def alarm_copy_line_bytes
      using alarm_crc by (simp add: alarm_scratchpad_def)
    from inst a5 a6 show ?thesis by blast
  qed
  from a1 a2 plain wired show ?thesis by blast
qed

end
